theory Spec2Isabelle
  imports
    Main
    "HOL-Library.AList"
    "HOL-Library.Sublist"
    "HOL-Library.Char_ord"
    "HOL-Library.List_Lexorder"
    "HOL-Library.Product_Lexorder"
begin

section \<open>Strings of the host language\<close>

text \<open>
  The call-graph generator of \<^verbatim>\<open>tools/callgraph/call_graph_generator.py\<close> works on
  Python strings. A string is modelled as a \<^typ>\<open>string\<close>; a \<^typ>\<open>char\<close> stands for the
  code point of the same number, so the model covers texts whose code points are below 256.
  The character classes below are the ones Python uses on that range:
  \<^verbatim>\<open>str.isspace\<close> (also the class \<^verbatim>\<open>\s\<close> of \<^verbatim>\<open>re\<close> and the characters removed by
  \<^verbatim>\<open>str.strip()\<close>), the class \<^verbatim>\<open>\w\<close> of \<^verbatim>\<open>re\<close>, \<^verbatim>\<open>str.isupper\<close> and
  \<^verbatim>\<open>str.islower\<close> on one character.
\<close>

definition code_point :: "char \<Rightarrow> nat" where
  "code_point c = of_char c"

definition isspace :: "char \<Rightarrow> bool" where
  "isspace c = (let n = code_point c in
     (9 \<le> n \<and> n \<le> 13) \<or> (28 \<le> n \<and> n \<le> 32) \<or> n = 133 \<or> n = 160)"

definition isword :: "char \<Rightarrow> bool" where
  "isword c = (let n = code_point c in
     (48 \<le> n \<and> n \<le> 57) \<or> (65 \<le> n \<and> n \<le> 90) \<or> n = 95 \<or> (97 \<le> n \<and> n \<le> 122) \<or>
     n = 170 \<or> (178 \<le> n \<and> n \<le> 179) \<or> n = 181 \<or> (185 \<le> n \<and> n \<le> 186) \<or>
     (188 \<le> n \<and> n \<le> 190) \<or> (192 \<le> n \<and> n \<le> 214) \<or> (216 \<le> n \<and> n \<le> 246) \<or>
     248 \<le> n)"

definition isupper :: "char \<Rightarrow> bool" where
  "isupper c = (let n = code_point c in
     (65 \<le> n \<and> n \<le> 90) \<or> (192 \<le> n \<and> n \<le> 214) \<or> (216 \<le> n \<and> n \<le> 222))"

definition islower :: "char \<Rightarrow> bool" where
  "islower c = (let n = code_point c in
     (97 \<le> n \<and> n \<le> 122) \<or> n = 170 \<or> n = 181 \<or> n = 186 \<or>
     (223 \<le> n \<and> n \<le> 246) \<or> 248 \<le> n)"

text \<open>\<^verbatim>\<open>s.strip()\<close>: leading and trailing white space removed.\<close>

definition strip :: "string \<Rightarrow> string" where
  "strip s = rev (dropWhile isspace (rev (dropWhile isspace s)))"

text \<open>\<^verbatim>\<open>s.split(sep)\<close> for a separator of one character: never an empty list.\<close>

fun split :: "char \<Rightarrow> string \<Rightarrow> string list" where
  "split sep [] = [[]]"
| "split sep (x # xs) =
     (if x = sep then [] # split sep xs
      else (case split sep xs of [] \<Rightarrow> [[x]] | p # ps \<Rightarrow> (x # p) # ps))"

text \<open>\<^verbatim>\<open>sep.join(parts)\<close>.\<close>

fun join :: "string \<Rightarrow> string list \<Rightarrow> string" where
  "join sep [] = []"
| "join sep [p] = p"
| "join sep (p # q # ps) = p @ sep @ join sep (q # ps)"

text \<open>\<^verbatim>\<open>s.startswith(p)\<close> is \<^const>\<open>prefix\<close>; \<^verbatim>\<open>s.replace(".", " ")\<close>:\<close>

definition replace_dots :: "string \<Rightarrow> string" where
  "replace_dots s = map (\<lambda>c. if c = CHR ''.'' then CHR '' '' else c) s"

text \<open>\<^verbatim>\<open>str(n)\<close> for a natural number: its decimal digits.\<close>

definition digit_char :: "nat \<Rightarrow> char" where
  "digit_char d = char_of (48 + d)"

function str_nat :: "nat \<Rightarrow> string" where
  "str_nat n = (if n < 10 then [digit_char n] else str_nat (n div 10) @ [digit_char (n mod 10)])"
  by pat_completeness auto
termination
  by (relation "measure id") auto

declare str_nat.simps [simp del]

definition NL :: char where
  "NL = CHR 0x0A"

section \<open>Regular expressions\<close>

text \<open>
  The patterns of the program use character classes, concatenation, ordered alternatives,
  greedy repetition and capturing groups. \<^verbatim>\<open>re\<close> matches by backtracking: the match it
  reports is the first one found when the alternatives are tried in order and a repetition
  tries one more round before it tries to stop. \<open>rmatch r c s\<close> lists, in that order, every
  way \<open>r\<close> matches a prefix of \<open>s\<close>, each with the groups captured and the text that is left;
  its first entry is the match \<^verbatim>\<open>re\<close> reports at that position. A round of a repetition
  that consumes nothing is cut off; no repetition of the program's patterns has such a
  round (\<open>Cls\<close> always consumes a character).
\<close>

datatype regex =
    Cls "char \<Rightarrow> bool"
  | Eps
  | Seq regex regex
  | Alt regex regex
  | Star regex
  | Grp nat regex

type_synonym groups = "nat \<rightharpoonup> string"

fun rmatch :: "regex \<Rightarrow> groups \<Rightarrow> string \<Rightarrow> (groups \<times> string) list" where
  "rmatch (Cls P) c s = (case s of [] \<Rightarrow> [] | x # xs \<Rightarrow> if P x then [(c, xs)] else [])"
| "rmatch Eps c s = [(c, s)]"
| "rmatch (Seq r1 r2) c s = concat (map (\<lambda>(c', s'). rmatch r2 c' s') (rmatch r1 c s))"
| "rmatch (Alt r1 r2) c s = rmatch r1 c s @ rmatch r2 c s"
| "rmatch (Star r) c s =
     concat (map (\<lambda>(c', s'). if length s' < length s then rmatch (Star r) c' s' else [])
                 (rmatch r c s)) @ [(c, s)]"
| "rmatch (Grp n r) c s =
     map (\<lambda>(c', s'). (c'(n \<mapsto> take (length s - length s') s), s')) (rmatch r c s)"

declare rmatch.simps(5) [simp del]

definition Plus :: "regex \<Rightarrow> regex" where
  "Plus r = Seq r (Star r)"

definition Chr :: "char \<Rightarrow> regex" where
  "Chr x = Cls (\<lambda>c. c = x)"

fun Lit :: "string \<Rightarrow> regex" where
  "Lit [] = Eps"
| "Lit (x # xs) = Seq (Chr x) (Lit xs)"

fun Seqs :: "regex list \<Rightarrow> regex" where
  "Seqs [] = Eps"
| "Seqs [r] = r"
| "Seqs (r # q # rs) = Seq r (Seqs (q # rs))"

text \<open>A match object: where the match starts and ends in the text searched, and its groups.\<close>

record re_match =
  m_start :: nat
  m_end :: nat
  m_groups :: groups

text \<open>
  \<^verbatim>\<open>match.group(n)\<close>. Every group of the program's patterns takes part in every match
  (lemma \<open>groups_present\<close> below), so the value \<^verbatim>\<open>None\<close> of a group that did not take part
  never reaches the program.
\<close>

definition m_group :: "re_match \<Rightarrow> nat \<Rightarrow> string" where
  "m_group m n = (case m_groups m n of Some g \<Rightarrow> g | None \<Rightarrow> [])"

text \<open>
  \<^verbatim>\<open>re.search\<close>: the first match at the leftmost position that has one. The second argument
  is the offset of the text that is left in the text searched.
\<close>

fun search_from :: "regex \<Rightarrow> nat \<Rightarrow> string \<Rightarrow> re_match option" where
  "search_from r pos [] =
     (case rmatch r Map.empty [] of
        [] \<Rightarrow> None
      | (c, s') # _ \<Rightarrow> Some \<lparr>m_start = pos, m_end = pos, m_groups = c\<rparr>)"
| "search_from r pos (x # xs) =
     (case rmatch r Map.empty (x # xs) of
        [] \<Rightarrow> search_from r (Suc pos) xs
      | (c, s') # _ \<Rightarrow>
          Some \<lparr>m_start = pos, m_end = pos + (length (x # xs) - length s'), m_groups = c\<rparr>)"

definition re_search :: "regex \<Rightarrow> string \<Rightarrow> re_match option" where
  "re_search r s = search_from r 0 s"

text \<open>
  \<^verbatim>\<open>re.finditer\<close>: the matches from left to right, each search starting where the match
  before it ended. After a match that consumed nothing \<^verbatim>\<open>re\<close> has a rule of its own for
  moving on; the scan below stops there, and no pattern of the program matches the empty
  text (lemma \<open>patterns_consume\<close> below).
\<close>

function finditer_from :: "regex \<Rightarrow> nat \<Rightarrow> string \<Rightarrow> re_match list" where
  "finditer_from r pos s =
     (case search_from r pos s of
        None \<Rightarrow> []
      | Some m \<Rightarrow>
          m # (let rest = drop (m_end m - pos) s
               in if length rest < length s then finditer_from r (m_end m) rest else []))"
  by pat_completeness auto
termination
  by (relation "measure (\<lambda>(r, pos, s). length s)") auto

declare finditer_from.simps [simp del]

definition re_finditer :: "regex \<Rightarrow> string \<Rightarrow> re_match list" where
  "re_finditer r s = finditer_from r 0 s"

section \<open>The call records\<close>

text \<open>
  \<^verbatim>\<open>class MethodCall\<close>. The attribute \<^verbatim>\<open>invocation_index\<close> does not exist until
  \<^verbatim>\<open>print_call_graph\<close> assigns it: \<open>None\<close> until then.
\<close>

record MethodCall =
  caller_class :: string
  caller_method :: string
  callee_class :: string
  callee_method :: string
  caller_type :: string
  callee_type :: string
  invocation_index :: "nat option"

definition class_method_prefixes :: "string list" where
  "class_method_prefixes = [''alloc'', ''new'', ''shared'', ''default'', ''class'']"

text \<open>\<^verbatim>\<open>any(name.startswith(prefix) for prefix in [...])\<close>\<close>

definition starts_with_prefix :: "string \<Rightarrow> bool" where
  "starts_with_prefix name = list_ex (\<lambda>p. prefix p name) class_method_prefixes"

text \<open>\<^verbatim>\<open>MethodCall.__init__\<close>\<close>

definition MethodCall_init :: "string \<Rightarrow> string \<Rightarrow> string \<Rightarrow> string \<Rightarrow> MethodCall" where
  "MethodCall_init caller_cls caller_meth callee_cls callee_meth =
     \<lparr>caller_class = caller_cls,
      caller_method = caller_meth,
      callee_class = callee_cls,
      callee_method = callee_meth,
      caller_type = (if starts_with_prefix caller_meth then ''+'' else ''-''),
      callee_type = (if starts_with_prefix callee_meth then ''+'' else ''-''),
      invocation_index = None\<rparr>"

text \<open>\<^verbatim>\<open>MethodCall.format_method_name\<close>\<close>

definition format_method_name :: "string \<Rightarrow> string" where
  "format_method_name method_name =
     (let name = strip method_name
      in if CHR '':'' \<in> set name
         then (let parts = map strip (split CHR '':'' name);
                   parts = filter (\<lambda>p. p \<noteq> []) parts
               in join '':'' parts @ '':'')
         else name)"

definition get_caller_signature :: "MethodCall \<Rightarrow> string" where
  "get_caller_signature call =
     (let method = format_method_name (caller_method call)
      in caller_type call @ ''['' @ caller_class call @ '' '' @ method @ '']'')"

definition get_callee_signature :: "MethodCall \<Rightarrow> string" where
  "get_callee_signature call =
     (let method = format_method_name (callee_method call)
      in callee_type call @ ''['' @ callee_class call @ '' '' @ method @ '']'')"

text \<open>\<^verbatim>\<open>MethodCall.__str__\<close>\<close>

definition MethodCall_str :: "MethodCall \<Rightarrow> string" where
  "MethodCall_str call = get_caller_signature call @ '' -> '' @ get_callee_signature call"

section \<open>The generator\<close>

text \<open>
  \<^verbatim>\<open>class CallGraphGenerator\<close>. The two dictionaries are association lists in insertion
  order, as a Python \<^verbatim>\<open>dict\<close> keeps them; \<^verbatim>\<open>class_methods\<close> is a
  \<^verbatim>\<open>defaultdict(set)\<close>. \<^verbatim>\<open>current_class\<close> is \<^verbatim>\<open>None\<close> until the first
  implementation is parsed.
\<close>

record CallGraphGenerator =
  call_graph :: "MethodCall list"
  class_methods :: "(string \<times> string set) list"
  class_hierarchy :: "(string \<times> string) list"
  current_class :: "string option"

text \<open>\<^verbatim>\<open>CallGraphGenerator.__init__\<close>\<close>

definition CallGraphGenerator_init :: CallGraphGenerator where
  "CallGraphGenerator_init =
     \<lparr>call_graph = [], class_methods = [], class_hierarchy = [], current_class = None\<rparr>"

text \<open>The patterns of \<^verbatim>\<open>parse_interface\<close>:
  \<^verbatim>\<open>@interface\s+(\w+)\s*:\s*(\w+)\<close> and \<^verbatim>\<open>([+-])\s*\(([\w\s*]+)\)([\w:]+)[\s;]\<close>\<close>

definition interface_pattern :: regex where
  "interface_pattern =
     Seqs [Lit ''@interface'', Plus (Cls isspace), Grp 1 (Plus (Cls isword)),
           Star (Cls isspace), Chr CHR '':'', Star (Cls isspace), Grp 2 (Plus (Cls isword))]"

definition interface_method_pattern :: regex where
  "interface_method_pattern =
     Seqs [Grp 1 (Cls (\<lambda>c. c = CHR ''+'' \<or> c = CHR ''-'')), Star (Cls isspace), Chr CHR ''('',
           Grp 2 (Plus (Cls (\<lambda>c. isword c \<or> isspace c \<or> c = CHR ''*''))), Chr CHR '')'',
           Grp 3 (Plus (Cls (\<lambda>c. isword c \<or> c = CHR '':''))),
           Cls (\<lambda>c. isspace c \<or> c = CHR '';'')]"

text \<open>\<^verbatim>\<open>self.class_methods[class_name].add(method_name)\<close> on the \<^verbatim>\<open>defaultdict(set)\<close>\<close>

definition add_method :: "string \<Rightarrow> string \<Rightarrow> (string \<times> string set) list \<Rightarrow> (string \<times> string set) list" where
  "add_method class_name method_name table =
     AList.update class_name
       (insert method_name (case map_of table class_name of None \<Rightarrow> {} | Some ms \<Rightarrow> ms)) table"

text \<open>\<^verbatim>\<open>CallGraphGenerator.parse_interface\<close>\<close>

definition parse_interface :: "string \<Rightarrow> string \<Rightarrow> CallGraphGenerator \<Rightarrow> CallGraphGenerator" where
  "parse_interface content class_name g =
     (let g1 = (case re_search interface_pattern content of
                  Some m \<Rightarrow>
                    (let superclass = m_group m 2
                     in g\<lparr>class_hierarchy := AList.update class_name superclass (class_hierarchy g)\<rparr>)
                | None \<Rightarrow> g)
      in fold (\<lambda>m g'. (let method_name = m_group m 3
                        in g'\<lparr>class_methods := add_method class_name method_name (class_methods g')\<rparr>))
              (re_finditer interface_method_pattern content) g1)"

text \<open>The patterns of \<^verbatim>\<open>parse_implementation\<close>:
  \<^verbatim>\<open>@implementation\s+(\w+)\<close>,
  \<^verbatim>\<open>([+-])\s*\(([\w\s*]+)\)([\w:]+(?::\w+\s*)*)\s*[{;]\<close> and
  \<^verbatim>\<open>\[\s*(self|super|\w+)\s+([\w:]+(?:\s+\w+:)*[^\]]*)\]\<close>\<close>

definition impl_pattern :: regex where
  "impl_pattern = Seqs [Lit ''@implementation'', Plus (Cls isspace), Grp 1 (Plus (Cls isword))]"

definition method_pattern :: regex where
  "method_pattern =
     Seqs [Grp 1 (Cls (\<lambda>c. c = CHR ''+'' \<or> c = CHR ''-'')), Star (Cls isspace), Chr CHR ''('',
           Grp 2 (Plus (Cls (\<lambda>c. isword c \<or> isspace c \<or> c = CHR ''*''))), Chr CHR '')'',
           Grp 3 (Seq (Plus (Cls (\<lambda>c. isword c \<or> c = CHR '':'')))
                      (Star (Seqs [Chr CHR '':'', Plus (Cls isword), Star (Cls isspace)]))),
           Star (Cls isspace),
           Cls (\<lambda>c. c = CHR ''{'' \<or> c = CHR '';'')]"

definition method_calls_pattern :: regex where
  "method_calls_pattern =
     Seqs [Chr CHR ''['', Star (Cls isspace),
           Grp 1 (Alt (Lit ''self'') (Alt (Lit ''super'') (Plus (Cls isword)))),
           Plus (Cls isspace),
           Grp 2 (Seqs [Plus (Cls (\<lambda>c. isword c \<or> c = CHR '':'')),
                        Star (Seqs [Plus (Cls isspace), Plus (Cls isword), Chr CHR '':'']),
                        Star (Cls (\<lambda>c. c \<noteq> CHR '']''))]),
           Chr CHR '']'']"

text \<open>
  The exceptions: \<^verbatim>\<open>callee_class[0]\<close> raises \<^verbatim>\<open>IndexError\<close> on the empty string, and
  \<^verbatim>\<open>read_text\<close> raises when the file cannot be read or decoded (its message is the
  system's).
\<close>

datatype error = IndexError | ReadError string

definition str_error :: "error \<Rightarrow> string" where
  "str_error e = (case e of IndexError \<Rightarrow> ''string index out of range'' | ReadError msg \<Rightarrow> msg)"

text \<open>A value that may be \<^verbatim>\<open>None\<close>, inside an f-string.\<close>

definition fstr :: "string option \<Rightarrow> string" where
  "fstr v = (case v of None \<Rightarrow> ''None'' | Some s \<Rightarrow> s)"

text \<open>
  The body of the loop over the message sends of a line (lines 93 to 127), in its four
  steps. \<open>cls\<close> is \<^verbatim>\<open>self.current_class\<close>, which \<^verbatim>\<open>parse_implementation\<close> sets
  before the loops and nothing changes while they run.

  Lines 96 to 101, the class of the receiver:
\<close>

definition resolve_receiver :: "string \<Rightarrow> (string \<times> string) list \<Rightarrow> string \<Rightarrow> string" where
  "resolve_receiver cls hierarchy callee_receiver =
     (if callee_receiver = ''self'' then cls
      else if callee_receiver = ''super''
        then (case map_of hierarchy cls of
                Some superclass \<Rightarrow> superclass
              | None \<Rightarrow> ''UnknownSuperOf'' @ cls)
      else callee_receiver)"

text \<open>
  Lines 110 to 112, \<^verbatim>\<open>callee_method_type\<close>. The second operand of \<^verbatim>\<open>or\<close> is evaluated
  only when the first is false, and \<^verbatim>\<open>callee_class[0]\<close> raises on the empty string.
\<close>

definition callee_method_type :: "string \<Rightarrow> string \<Rightarrow> error + string" where
  "callee_method_type full_method callee_cls =
     (if starts_with_prefix full_method then Inr ''+''
      else (case callee_cls of
              [] \<Rightarrow> Inl IndexError
            | c0 # _ \<Rightarrow>
                Inr (if isupper c0 \<and> \<not> list_ex islower callee_cls then ''+'' else ''-'')))"

text \<open>Lines 115 to 119, the method name of the callee:\<close>

definition callee_method_name :: "string \<Rightarrow> string" where
  "callee_method_name full_method =
     (let method_name = strip full_method
      in if CHR '':'' \<in> set method_name
         then (let parts = map strip (split CHR '':'' method_name)
               in join '':'' parts @ '':'')
         else method_name)"

text \<open>
  The body. The state is returned also when it raises: what was appended before stays
  appended.
\<close>

definition scan_call ::
  "string \<Rightarrow> string option \<Rightarrow> string \<Rightarrow> re_match \<Rightarrow> CallGraphGenerator
     \<Rightarrow> CallGraphGenerator \<times> error option" where
  "scan_call cls current_method_type current_method call_match g =
     (let callee_receiver = m_group call_match 1;
          full_method = m_group call_match 2;
          callee_cls = resolve_receiver cls (class_hierarchy g) callee_receiver
      in if full_method \<noteq> [] then
           (let formatted_caller =
                  fstr current_method_type @ '' ['' @ cls @ '' '' @ current_method @ '']''
            in case callee_method_type full_method callee_cls of
                 Inl e \<Rightarrow> (g, Some e)
               | Inr callee_kind \<Rightarrow>
                   (let method_name = callee_method_name full_method;
                        formatted_callee =
                          callee_kind @ '' ['' @ callee_cls @ '' '' @ method_name @ '']'';
                        formatted_caller = replace_dots formatted_caller;
                        formatted_callee = replace_dots formatted_callee
                    in (g\<lparr>call_graph := call_graph g @
                           [MethodCall_init cls formatted_caller callee_cls formatted_callee]\<rparr>,
                        None)))
         else (g, None))"

text \<open>The loop over the message sends of one line, left to right; it stops where the body
  raises.\<close>

fun scan_calls ::
  "string \<Rightarrow> string option \<Rightarrow> string \<Rightarrow> re_match list \<Rightarrow> CallGraphGenerator
     \<Rightarrow> CallGraphGenerator \<times> error option" where
  "scan_calls cls cmt cm [] g = (g, None)"
| "scan_calls cls cmt cm (call_match # rest) g =
     (case scan_call cls cmt cm call_match g of
        (g', Some e) \<Rightarrow> (g', Some e)
      | (g', None) \<Rightarrow> scan_calls cls cmt cm rest g')"

text \<open>
  The state of the loop over the lines: \<^verbatim>\<open>current_method\<close>,
  \<^verbatim>\<open>current_method_type\<close> and the generator. One round of that loop:
\<close>

type_synonym line_state = "string option \<times> string option \<times> CallGraphGenerator"

definition scan_line :: "string \<Rightarrow> string \<Rightarrow> line_state \<Rightarrow> line_state \<times> error option" where
  "scan_line cls line st =
     (case st of (current_method, current_method_type, g) \<Rightarrow>
        (case re_search method_pattern line of
           Some method_match \<Rightarrow>
             ((Some (m_group method_match 3), Some (m_group method_match 1), g), None)
         | None \<Rightarrow>
             (case current_method of
                None \<Rightarrow> (st, None)
              | Some cm \<Rightarrow>
                  if cm \<noteq> [] then
                    (case scan_calls cls current_method_type cm
                            (re_finditer method_calls_pattern line) g of
                       (g', e) \<Rightarrow> ((current_method, current_method_type, g'), e))
                  else (st, None))))"

fun scan_lines :: "string \<Rightarrow> string list \<Rightarrow> line_state \<Rightarrow> line_state \<times> error option" where
  "scan_lines cls [] st = (st, None)"
| "scan_lines cls (line # rest) st =
     (case scan_line cls line st of
        (st', Some e) \<Rightarrow> (st', Some e)
      | (st', None) \<Rightarrow> scan_lines cls rest st')"

text \<open>Lines 68 to 72: the class that \<^verbatim>\<open>parse_implementation\<close> makes current.\<close>

definition active_class :: "string \<Rightarrow> string \<Rightarrow> string" where
  "active_class content file_class_name =
     (case re_search impl_pattern content of
        Some impl_match \<Rightarrow> m_group impl_match 1
      | None \<Rightarrow> file_class_name)"

text \<open>\<^verbatim>\<open>CallGraphGenerator.parse_implementation\<close>\<close>

definition parse_implementation ::
  "string \<Rightarrow> string \<Rightarrow> CallGraphGenerator \<Rightarrow> CallGraphGenerator \<times> error option" where
  "parse_implementation content file_class_name g =
     (let cls = active_class content file_class_name;
          g1 = g\<lparr>current_class := Some cls\<rparr>;
          lines = split NL content
      in case scan_lines cls lines (None, None, g1) of
           ((current_method, current_method_type, g'), e) \<Rightarrow> (g', e))"

text \<open>
  A source file as \<^verbatim>\<open>analyze_file\<close> sees it: the path as printed, its stem and suffix,
  and what \<^verbatim>\<open>read_text\<close> gives. The second component of the result is what is printed.
\<close>

record source_file =
  file_path :: string
  file_stem :: string
  file_suffix :: string
  read_text :: "error + string"

definition error_line :: "source_file \<Rightarrow> error \<Rightarrow> string" where
  "error_line f e = ''Error processing '' @ file_path f @ '': '' @ str_error e"

definition analyze_file :: "source_file \<Rightarrow> CallGraphGenerator \<Rightarrow> CallGraphGenerator \<times> string list" where
  "analyze_file f g =
     (case read_text f of
        Inl e \<Rightarrow> (g, [error_line f e])
      | Inr content \<Rightarrow>
          (let class_name = file_stem f
           in if file_suffix f = ''.h'' then (parse_interface content class_name g, [])
              else if file_suffix f = ''.m'' then
                (case parse_implementation content class_name g of
                   (g', None) \<Rightarrow> (g', [])
                 | (g', Some e) \<Rightarrow> (g', [error_line f e]))
              else (g, [])))"

text \<open>\<^verbatim>\<open>CallGraphGenerator.print_call_graph\<close>: the loop that assigns the indices and
  groups the calls by caller class, one printed line, and the report.\<close>

fun assign_indices ::
  "MethodCall list \<Rightarrow> nat \<Rightarrow> (string \<times> MethodCall list) list
     \<Rightarrow> MethodCall list \<times> (string \<times> MethodCall list) list" where
  "assign_indices [] invocation_count by_caller = ([], by_caller)"
| "assign_indices (call # calls) invocation_count by_caller =
     (let call' = call\<lparr>invocation_index := Some invocation_count\<rparr>;
          by_caller' =
            AList.update (caller_class call')
              ((case map_of by_caller (caller_class call') of None \<Rightarrow> [] | Some cs \<Rightarrow> cs)
                 @ [call'])
              by_caller
      in case assign_indices calls (invocation_count + 1) by_caller' of
           (calls', by_caller'') \<Rightarrow> (call' # calls', by_caller''))"

definition index_of :: "MethodCall \<Rightarrow> nat" where
  "index_of call = (case invocation_index call of Some i \<Rightarrow> i | None \<Rightarrow> 0)"

definition fact_line :: "MethodCall \<Rightarrow> string" where
  "fact_line call =
     (let invocation =
            ''invoke_'' @ caller_class call @ ''_'' @ caller_method call @ ''_''
              @ str_nat (index_of call)
      in ''  StaticMethodInvocation('' @ invocation @ '', '' @ str_nat (index_of call) @ '', ''
           @ get_callee_signature call @ '', '' @ get_caller_signature call @ '')'')"

definition calls_of :: "(string \<times> MethodCall list) list \<Rightarrow> string \<Rightarrow> MethodCall list" where
  "calls_of by_caller cls = (case map_of by_caller cls of None \<Rightarrow> [] | Some cs \<Rightarrow> cs)"

definition print_call_graph :: "CallGraphGenerator \<Rightarrow> CallGraphGenerator \<times> string list" where
  "print_call_graph g =
     (case assign_indices (call_graph g) 0 [] of
        (calls, by_caller) \<Rightarrow>
          (g\<lparr>call_graph := calls\<rparr>,
           [NL # ''Call Graph Analysis:'', ''==================='', NL # ''Class Hierarchy:'']
           @ map (\<lambda>(cls, super_cls). cls @ '' -> '' @ super_cls) (sort (class_hierarchy g))
           @ [NL # ''Method Calls (Doop Facts Format):'']
           @ concat (map (\<lambda>caller_cls.
                        (NL # ''# '' @ caller_cls @ '':'')
                          # map fact_line (sort_key index_of (calls_of by_caller caller_cls)))
                      (sort (map fst by_caller)))
           @ [NL # ''Statistics:'',
              ''Total Classes: '' @ str_nat (length (class_methods g)),
              ''Total Methods: ''
                @ str_nat (sum_list (map (\<lambda>(cls, methods). card methods) (class_methods g))),
              ''Total Method Calls: '' @ str_nat (length (call_graph g))]))"

text \<open>
  \<^verbatim>\<open>main\<close>, from the list of files that \<^verbatim>\<open>find_source_files\<close> returns: the headers
  first, then the implementations, then the report.
\<close>

fun analyze_loop ::
  "string \<Rightarrow> string \<Rightarrow> source_file list \<Rightarrow> CallGraphGenerator
     \<Rightarrow> CallGraphGenerator \<times> string list" where
  "analyze_loop sfx label [] g = (g, [])"
| "analyze_loop sfx label (f # fs) g =
     (if file_suffix f = sfx then
        (case analyze_file f g of
           (g1, out1) \<Rightarrow>
             (case analyze_loop sfx label fs g1 of
                (g2, out2) \<Rightarrow> (g2, (label @ file_path f) # out1 @ out2)))
      else analyze_loop sfx label fs g)"

definition main :: "source_file list \<Rightarrow> CallGraphGenerator \<times> string list" where
  "main source_files =
     (case analyze_loop ''.h'' ''Analyzing header: '' source_files CallGraphGenerator_init of
        (g1, out1) \<Rightarrow>
          (case analyze_loop ''.m'' ''Analyzing implementation: '' source_files g1 of
             (g2, out2) \<Rightarrow>
               (case print_call_graph g2 of
                  (g3, out3) \<Rightarrow>
                    (g3, (''Found '' @ str_nat (length source_files) @ '' source files to analyze'')
                           # out1 @ out2 @ out3))))"

text \<open>The bytes written: every printed line followed by a newline.\<close>

definition stdout_bytes :: "string list \<Rightarrow> string" where
  "stdout_bytes out = concat (map (\<lambda>l. l @ [NL]) out)"

section \<open>Notions used in the statements and proofs\<close>

text \<open>
  Two syntactic checks on a pattern, used to show that every match of the program's patterns
  consumes text and sets its groups: \<open>nullable r\<close> when \<open>r\<close> may match the empty text,
  \<open>captures n r\<close> when every match of \<open>r\<close> goes through group \<open>n\<close>.
\<close>

fun nullable :: "regex \<Rightarrow> bool" where
  "nullable (Cls P) = False"
| "nullable Eps = True"
| "nullable (Seq r1 r2) = (nullable r1 \<and> nullable r2)"
| "nullable (Alt r1 r2) = (nullable r1 \<or> nullable r2)"
| "nullable (Star r) = True"
| "nullable (Grp n r) = nullable r"

fun captures :: "nat \<Rightarrow> regex \<Rightarrow> bool" where
  "captures n (Cls P) = False"
| "captures n Eps = False"
| "captures n (Seq r1 r2) = (captures n r1 \<or> captures n r2)"
| "captures n (Alt r1 r2) = (captures n r1 \<and> captures n r2)"
| "captures n (Star r) = False"
| "captures n (Grp k r) = (k = n \<or> captures n r)"

text \<open>
  The call records that the loop body appends for one message send: none or one. The body
  reads the generator only through its class hierarchy.
\<close>

definition site_edges ::
  "string \<Rightarrow> (string \<times> string) list \<Rightarrow> string option \<Rightarrow> string \<Rightarrow> re_match \<Rightarrow> MethodCall list" where
  "site_edges cls hierarchy cmt cm call_match =
     call_graph (fst (scan_call cls cmt cm call_match
       \<lparr>call_graph = [], class_methods = [], class_hierarchy = hierarchy, current_class = None\<rparr>))"

text \<open>The call records with the indices \<open>n\<close>, \<open>n + 1\<close>, ... attached in list order.\<close>

definition indexed :: "MethodCall list \<Rightarrow> nat \<Rightarrow> MethodCall list" where
  "indexed calls n =
     map (\<lambda>(call, i). call\<lparr>invocation_index := Some i\<rparr>) (zip calls [n..<n + length calls])"

text \<open>
  Example files. \<open>Dog_h\<close> and \<open>Dog_m_spec\<close> are the end-to-end scenario of the
  specification, the definition unit with the text the specification gives; \<open>Dog_m\<close> is the
  same unit with the header written without a blank after the return type.
\<close>

definition Dog_h :: source_file where
  "Dog_h = \<lparr>file_path = ''Dog.h'', file_stem = ''Dog'', file_suffix = ''.h'',
     read_text = Inr ''@interface Dog : Animal\<newline>- (void)bark;\<newline>@end''\<rparr>"

definition Dog_m :: source_file where
  "Dog_m = \<lparr>file_path = ''Dog.m'', file_stem = ''Dog'', file_suffix = ''.m'',
     read_text = Inr ''-(void)bark {\<newline>    [self growl];\<newline>    [Animal sharedInstance];\<newline>}''\<rparr>"

definition Dog_m_spec :: source_file where
  "Dog_m_spec = \<lparr>file_path = ''Dog.m'', file_stem = ''Dog'', file_suffix = ''.m'',
     read_text = Inr ''-(void) bark {\<newline>    [self growl];\<newline>    [Animal sharedInstance];\<newline>}''\<rparr>"

definition Cat_m :: source_file where
  "Cat_m = \<lparr>file_path = ''Cat.m'', file_stem = ''Cat'', file_suffix = ''.m'',
     read_text = Inr ''@implementation Cat\<newline>-(void)purr {\<newline>    [self sleep]; [Dog alloc];\<newline>}''\<rparr>"

text \<open>
  What the analyzer reads of a file; the generator after the two loops of \<^verbatim>\<open>main\<close>; and
  the report that \<^verbatim>\<open>main\<close> prints from it.
\<close>

definition unit_of :: "source_file \<Rightarrow> (error + string) \<times> string \<times> string" where
  "unit_of f = (read_text f, file_suffix f, file_stem f)"

definition analysis :: "source_file list \<Rightarrow> CallGraphGenerator" where
  "analysis source_files =
     fst (analyze_loop ''.m'' ''Analyzing implementation: '' source_files
       (fst (analyze_loop ''.h'' ''Analyzing header: '' source_files CallGraphGenerator_init)))"

definition report :: "source_file list \<Rightarrow> string list" where
  "report source_files = snd (print_call_graph (analysis source_files))"


section \<open>Properties of the matcher\<close>

lemma in_rmatch_Star:
  "(c', s') \<in> set (rmatch (Star r) c s) \<longleftrightarrow>
     (c', s') = (c, s) \<or>
     (\<exists>c1 s1. (c1, s1) \<in> set (rmatch r c s) \<and> length s1 < length s \<and>
        (c', s') \<in> set (rmatch (Star r) c1 s1))"
  by (subst rmatch.simps(5)) (auto split: if_splits)

lemma rmatch_suffix:
  "(c', s') \<in> set (rmatch r c s) \<Longrightarrow> suffix s' s"
proof (induction r c s arbitrary: c' s' rule: rmatch.induct)
  case (1 P c s)
  then show ?case by (auto split: list.splits if_splits simp: suffix_Cons)
next
  case (2 c s)
  then show ?case by simp
next
  case (3 r1 r2 c s)
  from "3.prems" obtain c1 s1 where a: "(c1, s1) \<in> set (rmatch r1 c s)"
    and b: "(c', s') \<in> set (rmatch r2 c1 s1)" by auto
  from "3.IH"(1)[OF a] "3.IH"(2)[OF a refl b] show ?case
    using suffix_order.trans by blast
next
  case (4 r1 r2 c s)
  then show ?case by auto
next
  case (5 r c s)
  from "5.prems" in_rmatch_Star[of c' s' r c s] consider "(c', s') = (c, s)"
    | c1 s1 where "(c1, s1) \<in> set (rmatch r c s)" "length s1 < length s"
        "(c', s') \<in> set (rmatch (Star r) c1 s1)"
    by blast
  then show ?case
  proof cases
    case 1 then show ?thesis by simp
  next
    case 2
    from "5.IH"(1)[OF 2(1)] "5.IH"(2)[OF 2(1) refl 2(2) 2(3)] show ?thesis
      using suffix_order.trans by blast
  qed
next
  case (6 n r c s)
  then show ?case by auto
qed

lemma rmatch_length: "(c', s') \<in> set (rmatch r c s) \<Longrightarrow> length s' \<le> length s"
  using rmatch_suffix suffix_length_le by blast

lemma rmatch_consumes:
  "\<not> nullable r \<Longrightarrow> (c', s') \<in> set (rmatch r c s) \<Longrightarrow> length s' < length s"
proof (induction r arbitrary: c s c' s')
  case (Cls P)
  then show ?case by (auto split: list.splits if_splits)
next
  case Eps
  then show ?case by simp
next
  case (Seq r1 r2)
  from Seq.prems(2) obtain c1 s1 where a: "(c1, s1) \<in> set (rmatch r1 c s)"
    and b: "(c', s') \<in> set (rmatch r2 c1 s1)" by auto
  have la: "length s1 \<le> length s" and lb: "length s' \<le> length s1"
    using a b rmatch_length by blast+
  from Seq.prems(1) have "\<not> nullable r1 \<or> \<not> nullable r2" by simp
  then show ?case
  proof
    assume "\<not> nullable r1"
    from Seq.IH(1)[OF this a] lb show ?thesis by simp
  next
    assume "\<not> nullable r2"
    from Seq.IH(2)[OF this b] la show ?thesis by simp
  qed
next
  case (Alt r1 r2)
  then show ?case by auto
next
  case (Star r)
  then show ?case by simp
next
  case (Grp n r)
  then show ?case by auto
qed

lemma rmatch_keeps_groups:
  "(c', s') \<in> set (rmatch r c s) \<Longrightarrow> c n \<noteq> None \<Longrightarrow> c' n \<noteq> None"
proof (induction r c s arbitrary: c' s' rule: rmatch.induct)
  case (1 P c s)
  then show ?case by (auto split: list.splits if_splits)
next
  case (2 c s)
  then show ?case by simp
next
  case (3 r1 r2 c s)
  from "3.prems" obtain c1 s1 where a: "(c1, s1) \<in> set (rmatch r1 c s)"
    and b: "(c', s') \<in> set (rmatch r2 c1 s1)" by auto
  from "3.IH"(1)[OF a "3.prems"(2)] "3.IH"(2)[OF a refl b] show ?case by simp
next
  case (4 r1 r2 c s)
  then show ?case by auto
next
  case (5 r c s)
  from "5.prems"(1) in_rmatch_Star[of c' s' r c s] consider "(c', s') = (c, s)"
    | c1 s1 where "(c1, s1) \<in> set (rmatch r c s)" "length s1 < length s"
        "(c', s') \<in> set (rmatch (Star r) c1 s1)"
    by blast
  then show ?case
  proof cases
    case 1 then show ?thesis using "5.prems"(2) by simp
  next
    case 2
    from "5.IH"(1)[OF 2(1) "5.prems"(2)] "5.IH"(2)[OF 2(1) refl 2(2) 2(3)] show ?thesis by simp
  qed
next
  case (6 n r c s)
  then show ?case by (auto split: if_splits)
qed

lemma rmatch_captures:
  "captures n r \<Longrightarrow> (c', s') \<in> set (rmatch r c s) \<Longrightarrow> c' n \<noteq> None"
proof (induction r arbitrary: c s c' s')
  case (Seq r1 r2)
  from Seq.prems(2) obtain c1 s1 where a: "(c1, s1) \<in> set (rmatch r1 c s)"
    and b: "(c', s') \<in> set (rmatch r2 c1 s1)" by auto
  from Seq.prems(1) have "captures n r1 \<or> captures n r2" by simp
  then show ?case
  proof
    assume "captures n r1"
    from Seq.IH(1)[OF this a] rmatch_keeps_groups[OF b] show ?thesis by blast
  next
    assume "captures n r2"
    from Seq.IH(2)[OF this b] show ?thesis .
  qed
next
  case (Grp k r)
  then show ?case by (auto split: if_splits)
qed auto

lemma search_from_cases:
  "search_from r pos s = Some m \<Longrightarrow>
     \<exists>k c s'. k \<le> length s \<and> rmatch r Map.empty (drop k s) = (c, s') # tl (rmatch r Map.empty (drop k s))
       \<and> m = \<lparr>m_start = pos + k, m_end = pos + k + (length (drop k s) - length s'), m_groups = c\<rparr>"
proof (induction r pos s rule: search_from.induct)
  case (1 r pos)
  then show ?case by (auto split: list.splits)
next
  case (2 r pos x xs)
  show ?case
  proof (cases "rmatch r Map.empty (x # xs)")
    case Nil
    with 2 obtain k c s' where "k \<le> length xs"
      "rmatch r Map.empty (drop k xs) = (c, s') # tl (rmatch r Map.empty (drop k xs))"
      "m = \<lparr>m_start = Suc pos + k, m_end = Suc pos + k + (length (drop k xs) - length s'), m_groups = c\<rparr>"
      by auto
    then show ?thesis by (intro exI[of _ "Suc k"] exI[of _ c] exI[of _ s']) simp
  next
    case (Cons a list)
    with 2 show ?thesis by (intro exI[of _ 0]) (auto split: prod.splits)
  qed
qed

lemma search_from_bounds:
  assumes "search_from r pos s = Some m"
  shows "pos \<le> m_start m" and "m_start m \<le> m_end m" and "m_end m \<le> pos + length s"
proof -
  from search_from_cases[OF assms] obtain k c s' where k: "k \<le> length s"
    and r: "rmatch r Map.empty (drop k s) = (c, s') # tl (rmatch r Map.empty (drop k s))"
    and m: "m = \<lparr>m_start = pos + k, m_end = pos + k + (length (drop k s) - length s'), m_groups = c\<rparr>"
    by blast
  from r have "(c, s') \<in> set (rmatch r Map.empty (drop k s))" by (metis list.set_intros(1))
  then have "length s' \<le> length (drop k s)" by (rule rmatch_length)
  with k m show "pos \<le> m_start m" "m_start m \<le> m_end m" "m_end m \<le> pos + length s"
    by auto
qed

lemma search_from_nonempty:
  assumes "search_from r pos s = Some m" and "\<not> nullable r"
  shows "m_start m < m_end m"
proof -
  from search_from_cases[OF assms(1)] obtain k c s' where k: "k \<le> length s"
    and r: "rmatch r Map.empty (drop k s) = (c, s') # tl (rmatch r Map.empty (drop k s))"
    and m: "m = \<lparr>m_start = pos + k, m_end = pos + k + (length (drop k s) - length s'), m_groups = c\<rparr>"
    by blast
  from r have "(c, s') \<in> set (rmatch r Map.empty (drop k s))" by (metis list.set_intros(1))
  from rmatch_consumes[OF assms(2) this] m show ?thesis by simp
qed

lemma search_from_group:
  assumes "search_from r pos s = Some m" and "captures n r"
  shows "m_groups m n \<noteq> None"
proof -
  from search_from_cases[OF assms(1)] obtain k c s' where
    r: "rmatch r Map.empty (drop k s) = (c, s') # tl (rmatch r Map.empty (drop k s))"
    and m: "m = \<lparr>m_start = pos + k, m_end = pos + k + (length (drop k s) - length s'), m_groups = c\<rparr>"
    by blast
  from r have "(c, s') \<in> set (rmatch r Map.empty (drop k s))" by (metis list.set_intros(1))
  from rmatch_captures[OF assms(2) this] m show ?thesis by simp
qed

lemma finditer_from_props:
  "sorted_wrt (\<lambda>a b. m_end a \<le> m_start b) (finditer_from r pos s) \<and>
   (\<forall>m \<in> set (finditer_from r pos s). pos \<le> m_start m \<and> m_start m \<le> m_end m \<and> m_end m \<le> pos + length s
       \<and> (\<exists>p t. search_from r p t = Some m))"
proof (induction r pos s rule: finditer_from.induct)
  case (1 r pos s)
  show ?case
  proof (cases "search_from r pos s")
    case None
    then show ?thesis by (simp add: finditer_from.simps)
  next
    case (Some m)
    note b = search_from_bounds[OF Some]
    let ?rest = "drop (m_end m - pos) s"
    show ?thesis
    proof (cases "length ?rest < length s")
      case True
      have eq: "finditer_from r pos s = m # finditer_from r (m_end m) ?rest"
        by (subst finditer_from.simps) (simp only: Some option.case Let_def True if_True)
      from "1.IH"[OF Some refl True]
      have ih: "sorted_wrt (\<lambda>a b. m_end a \<le> m_start b) (finditer_from r (m_end m) ?rest)"
        and ih2: "\<forall>m' \<in> set (finditer_from r (m_end m) ?rest). m_end m \<le> m_start m' \<and> m_start m' \<le> m_end m'
            \<and> m_end m' \<le> m_end m + length ?rest \<and> (\<exists>p t. search_from r p t = Some m')"
        by blast+
      have len: "m_end m + length ?rest = pos + length s" using b by simp
      show ?thesis unfolding eq using ih ih2 b Some len by auto
    next
      case False
      have eq: "finditer_from r pos s = [m]"
        by (subst finditer_from.simps) (simp only: Some option.case Let_def False if_False)
      show ?thesis unfolding eq using b Some by auto
    qed
  qed
qed


lemma patterns_consume:
  "\<not> nullable interface_pattern" "\<not> nullable interface_method_pattern"
  "\<not> nullable impl_pattern" "\<not> nullable method_pattern" "\<not> nullable method_calls_pattern"
  by (simp_all add: interface_pattern_def interface_method_pattern_def impl_pattern_def
      method_pattern_def method_calls_pattern_def Plus_def Chr_def)

lemma groups_present:
  "captures 2 interface_pattern" "captures 3 interface_method_pattern"
  "captures 1 impl_pattern" "captures 1 method_pattern" "captures 3 method_pattern"
  "captures 1 method_calls_pattern" "captures 2 method_calls_pattern"
  by (simp_all add: interface_pattern_def interface_method_pattern_def impl_pattern_def
      method_pattern_def method_calls_pattern_def Plus_def Chr_def)

section \<open>Trimming and splitting\<close>

lemma colon_not_space: "\<not> isspace CHR '':''"
  by (simp add: isspace_def code_point_def)

lemma split_not_Nil: "split sep s \<noteq> []"
  by (induction s) (auto split: list.splits)

lemma split_no_sep: "sep \<notin> set s \<Longrightarrow> split sep s = [s]"
  by (induction s) auto

lemma split_append_left:
  "sep \<notin> set a \<Longrightarrow> split sep (a @ t) = (a @ hd (split sep t)) # tl (split sep t)"
proof (induction a)
  case Nil
  then show ?case using split_not_Nil[of sep t] by simp
next
  case (Cons x a)
  then show ?case by auto
qed

lemma split_append_right:
  "sep \<notin> set b \<Longrightarrow>
     split sep (t @ b) = butlast (split sep t) @ [last (split sep t) @ b]"
proof (induction t)
  case Nil
  then show ?case by (simp add: split_no_sep)
next
  case (Cons x t)
  show ?case
  proof (cases "x = sep")
    case True
    with Cons show ?thesis using split_not_Nil[of sep t] by simp
  next
    case False
    obtain p ps where sp: "split sep t = p # ps"
      using split_not_Nil[of sep t] by (cases "split sep t") auto
    show ?thesis
    proof (cases ps)
      case Nil
      with Cons False sp show ?thesis by simp
    next
      case (Cons q qs)
      with Cons.IH[OF Cons.prems] False sp show ?thesis by simp
    qed
  qed
qed

lemma strip_append_left: "\<forall>x\<in>set a. isspace x \<Longrightarrow> strip (a @ t) = strip t"
  by (simp add: strip_def dropWhile_append)

lemma dropWhile_all: "\<forall>x\<in>set b. P x \<Longrightarrow> dropWhile P b = []"
  by (induction b) auto

lemma strip_append_right: "\<forall>x\<in>set b. isspace x \<Longrightarrow> strip (t @ b) = strip t"
proof -
  assume b: "\<forall>x\<in>set b. isspace x"
  have "dropWhile isspace (rev (dropWhile isspace (t @ b))) = dropWhile isspace (rev (dropWhile isspace t))"
  proof (cases "\<forall>x\<in>set t. isspace x")
    case True
    with b show ?thesis by (simp add: dropWhile_all)
  next
    case False
    then have "dropWhile isspace (t @ b) = dropWhile isspace t @ b"
      by (auto simp: dropWhile_append)
    with b show ?thesis by (simp add: dropWhile_append dropWhile_all)
  qed
  then show ?thesis by (simp add: strip_def)
qed

lemma strip_decompose:
  "\<exists>a b. s = a @ strip s @ b \<and> (\<forall>x\<in>set a. isspace x) \<and> (\<forall>x\<in>set b. isspace x)"
proof -
  let ?d = "dropWhile isspace s"
  have 1: "s = takeWhile isspace s @ ?d" by simp
  have 2: "rev ?d = takeWhile isspace (rev ?d) @ dropWhile isspace (rev ?d)" by simp
  have "?d = rev (dropWhile isspace (rev ?d)) @ rev (takeWhile isspace (rev ?d))"
    by (metis 2 rev_append rev_rev_ident)
  then have 3: "?d = strip s @ rev (takeWhile isspace (rev ?d))" by (simp add: strip_def)
  have 4: "\<forall>x\<in>set (takeWhile isspace s). isspace x" by (meson set_takeWhileD)
  have 5: "\<forall>x\<in>set (rev (takeWhile isspace (rev ?d))). isspace x"
    by (metis set_rev set_takeWhileD)
  from 1 3 have "s = takeWhile isspace s @ strip s @ rev (takeWhile isspace (rev ?d))" by metis
  with 4 5 show ?thesis by blast
qed

lemma colon_in_strip: "CHR '':'' \<in> set (strip s) \<longleftrightarrow> CHR '':'' \<in> set s"
proof -
  obtain a b where s: "s = a @ strip s @ b" and a: "\<forall>x\<in>set a. isspace x" and b: "\<forall>x\<in>set b. isspace x"
    using strip_decompose by blast
  have "CHR '':'' \<notin> set a" "CHR '':'' \<notin> set b" using a b colon_not_space by blast+
  moreover have "set s = set a \<union> set (strip s) \<union> set b" by (subst s) auto
  ultimately show ?thesis by auto
qed

lemma map_strip_split_strip:
  "map strip (split CHR '':'' (strip s)) = map strip (split CHR '':'' s)"
proof -
  obtain a b where s: "s = a @ strip s @ b" and a: "\<forall>x\<in>set a. isspace x" and b: "\<forall>x\<in>set b. isspace x"
    using strip_decompose by blast
  have na: "CHR '':'' \<notin> set a" and nb: "CHR '':'' \<notin> set b" using a b colon_not_space by blast+
  let ?t = "strip s"
  have ne: "split CHR '':'' ?t \<noteq> []" by (rule split_not_Nil)
  have r: "map strip (split CHR '':'' (?t @ b)) = map strip (split CHR '':'' ?t)"
  proof -
    have "map strip (split CHR '':'' (?t @ b))
        = map strip (butlast (split CHR '':'' ?t)) @ [strip (last (split CHR '':'' ?t) @ b)]"
      by (simp add: split_append_right[OF nb])
    also have "\<dots> = map strip (butlast (split CHR '':'' ?t)) @ [strip (last (split CHR '':'' ?t))]"
      by (simp add: strip_append_right[OF b])
    also have "\<dots> = map strip (butlast (split CHR '':'' ?t) @ [last (split CHR '':'' ?t)])"
      by simp
    also have "\<dots> = map strip (split CHR '':'' ?t)" using ne by simp
    finally show ?thesis .
  qed
  have ne2: "split CHR '':'' (?t @ b) \<noteq> []" by (rule split_not_Nil)
  have "map strip (split CHR '':'' (a @ (?t @ b)))
      = strip (a @ hd (split CHR '':'' (?t @ b))) # map strip (tl (split CHR '':'' (?t @ b)))"
    by (simp add: split_append_left[OF na])
  also have "\<dots> = strip (hd (split CHR '':'' (?t @ b))) # map strip (tl (split CHR '':'' (?t @ b)))"
    by (simp add: strip_append_left[OF a])
  also have "\<dots> = map strip (split CHR '':'' (?t @ b))"
    using ne2 by (cases "split CHR '':'' (?t @ b)") auto
  finally have "map strip (split CHR '':'' (a @ ?t @ b)) = map strip (split CHR '':'' ?t)"
    using r by simp
  then show ?thesis using s by simp
qed

lemma format_method_name_no_colon:
  "CHR '':'' \<notin> set s \<Longrightarrow> format_method_name s = strip s"
  by (simp add: format_method_name_def colon_in_strip)

lemma format_method_name_colon:
  "CHR '':'' \<in> set s \<Longrightarrow>
     format_method_name s =
       join '':'' (filter (\<lambda>p. p \<noteq> []) (map strip (split CHR '':'' s))) @ '':''"
  by (simp add: format_method_name_def colon_in_strip map_strip_split_strip Let_def)

section \<open>The scan of an implementation\<close>

lemma scan_call_appends:
  "fst (scan_call cls cmt cm m g) =
     g\<lparr>call_graph := call_graph g @ site_edges cls (class_hierarchy g) cmt cm m\<rparr>"
  by (simp add: scan_call_def site_edges_def Let_def split: sum.splits)

lemma callee_method_type_cases:
  "callee_method_type f c = Inr k \<Longrightarrow> k = ''+'' \<or> k = ''-''"
  by (auto simp: callee_method_type_def split: if_splits list.splits)

lemma site_edges_cases:
  "site_edges cls h cmt cm m = [] \<or>
   (\<exists>kind. callee_method_type (m_group m 2) (resolve_receiver cls h (m_group m 1)) = Inr kind \<and>
      site_edges cls h cmt cm m =
     [MethodCall_init cls (replace_dots (fstr cmt @ '' ['' @ cls @ '' '' @ cm @ '']''))
        (resolve_receiver cls h (m_group m 1))
        (replace_dots (kind @ '' ['' @ resolve_receiver cls h (m_group m 1) @ '' '' @
           callee_method_name (m_group m 2) @ '']''))])"
  by (simp add: scan_call_def site_edges_def Let_def split: sum.splits)

lemma scan_call_error:
  "snd (scan_call cls cmt cm m g) = Some e \<Longrightarrow>
     e = IndexError \<and> resolve_receiver cls (class_hierarchy g) (m_group m 1) = [] \<and>
     site_edges cls (class_hierarchy g) cmt cm m = []"
  by (auto simp add: scan_call_def site_edges_def callee_method_type_def Let_def split: sum.splits list.splits if_splits)

lemma scan_call_snd_cases:
  "scan_call cls cmt cm m g = (g', err) \<Longrightarrow>
     g' = g\<lparr>call_graph := call_graph g @ site_edges cls (class_hierarchy g) cmt cm m\<rparr>"
  using scan_call_appends[of cls cmt cm m g] by simp

lemma scan_calls_append:
  "scan_calls cls cmt cm (ms1 @ ms2) g =
     (case scan_calls cls cmt cm ms1 g of
        (g', Some e) \<Rightarrow> (g', Some e)
      | (g', None) \<Rightarrow> scan_calls cls cmt cm ms2 g')"
  by (induction ms1 arbitrary: g) (auto split: prod.splits option.splits)

lemma scan_calls_edges:
  "scan_calls cls cmt cm ms g = (g', err) \<Longrightarrow>
     \<exists>ms'. prefix ms' ms \<and> (err = None \<longrightarrow> ms' = ms) \<and>
       g' = g\<lparr>call_graph := call_graph g @
              concat (map (site_edges cls (class_hierarchy g) cmt cm) ms')\<rparr>"
proof (induction ms arbitrary: g)
  case Nil
  then show ?case by simp
next
  case (Cons m ms)
  obtain g1 e1 where sc: "scan_call cls cmt cm m g = (g1, e1)" by (cases "scan_call cls cmt cm m g")
  note g1 = scan_call_snd_cases[OF sc]
  show ?case
  proof (cases e1)
    case None
    with Cons.prems sc have "scan_calls cls cmt cm ms g1 = (g', err)" by simp
    from Cons.IH[OF this] obtain ms' where p: "prefix ms' ms" and e: "err = None \<longrightarrow> ms' = ms"
      and g': "g' = g1\<lparr>call_graph := call_graph g1 @
              concat (map (site_edges cls (class_hierarchy g1) cmt cm) ms')\<rparr>" by blast
    have "g' = g\<lparr>call_graph := call_graph g @
              concat (map (site_edges cls (class_hierarchy g) cmt cm) (m # ms'))\<rparr>"
      unfolding g' by (simp add: g1)
    with p e show ?thesis by (intro exI[of _ "m # ms'"]) simp
  next
    case (Some e)
    with Cons.prems sc have r: "g' = g1" "err = Some e" by simp_all
    from scan_call_error[of cls cmt cm m g e] sc Some
    have "site_edges cls (class_hierarchy g) cmt cm m = []" by simp
    with g1 r show ?thesis by (intro exI[of _ "[]"]) simp
  qed
qed

lemma scan_line_header:
  "re_search method_pattern line = Some mm \<Longrightarrow>
     scan_line cls line (cm, cmt, g) = ((Some (m_group mm 3), Some (m_group mm 1), g), None)"
  by (simp add: scan_line_def)

lemma scan_line_no_context:
  "re_search method_pattern line = None \<Longrightarrow>
     scan_line cls line (None, cmt, g) = ((None, cmt, g), None)"
  by (simp add: scan_line_def)

lemma scan_line_body:
  "re_search method_pattern line = None \<Longrightarrow> cm \<noteq> [] \<Longrightarrow>
     scan_line cls line (Some cm, cmt, g) =
       (case scan_calls cls cmt cm (re_finditer method_calls_pattern line) g of
          (g', e) \<Rightarrow> ((Some cm, cmt, g'), e))"
  by (simp add: scan_line_def)

lemma scan_line_edges:
  assumes "scan_line cls line (cm, cmt, g) = ((cm', cmt', g'), err)"
  shows "\<exists>new. g' = g\<lparr>call_graph := call_graph g @ new\<rparr> \<and>
           (\<forall>e\<in>set new. \<exists>m\<in>set (re_finditer method_calls_pattern line). \<exists>t c.
               e \<in> set (site_edges cls (class_hierarchy g) t c m))"
proof (cases "re_search method_pattern line")
  case (Some mm)
  with assms have "g' = g" by (simp add: scan_line_def)
  then show ?thesis by (intro exI[of _ "[]"]) simp
next
  case None
  show ?thesis
  proof (cases "\<exists>c. cm = Some c \<and> c \<noteq> []")
    case False
    with assms None have "g' = g" by (auto simp: scan_line_def split: option.splits if_splits)
    then show ?thesis by (intro exI[of _ "[]"]) simp
  next
    case True
    then obtain c where c: "cm = Some c" "c \<noteq> []" by blast
    with assms None have "scan_calls cls cmt c (re_finditer method_calls_pattern line) g = (g', err)"
      by (simp add: scan_line_def split: prod.splits)
    from scan_calls_edges[OF this] obtain ms' where p: "prefix ms' (re_finditer method_calls_pattern line)"
      and g': "g' = g\<lparr>call_graph := call_graph g @
              concat (map (site_edges cls (class_hierarchy g) cmt c) ms')\<rparr>" by blast
    from p have "set ms' \<subseteq> set (re_finditer method_calls_pattern line)" by (rule set_mono_prefix)
    then show ?thesis
      by (intro exI[of _ "concat (map (site_edges cls (class_hierarchy g) cmt c) ms')"])
         (use g' in auto)
  qed
qed

lemma scan_lines_append:
  "scan_lines cls (ls1 @ ls2) st =
     (case scan_lines cls ls1 st of
        (st', Some e) \<Rightarrow> (st', Some e)
      | (st', None) \<Rightarrow> scan_lines cls ls2 st')"
  by (induction ls1 arbitrary: st) (auto split: prod.splits option.splits)

lemma scan_lines_edges:
  "scan_lines cls ls (cm, cmt, g) = ((cm', cmt', g'), err) \<Longrightarrow>
     \<exists>new. g' = g\<lparr>call_graph := call_graph g @ new\<rparr> \<and>
       (\<forall>e\<in>set new. \<exists>l\<in>set ls. \<exists>m\<in>set (re_finditer method_calls_pattern l). \<exists>t c.
           e \<in> set (site_edges cls (class_hierarchy g) t c m))"
proof (induction ls arbitrary: cm cmt g)
  case Nil
  then show ?case by (intro exI[of _ "[]"]) simp
next
  case (Cons l ls)
  obtain cm1 cmt1 g1 e1 where sl: "scan_line cls l (cm, cmt, g) = ((cm1, cmt1, g1), e1)"
    by (metis prod.exhaust)
  from scan_line_edges[OF sl] obtain new1 where g1: "g1 = g\<lparr>call_graph := call_graph g @ new1\<rparr>"
    and n1: "\<forall>e\<in>set new1. \<exists>m\<in>set (re_finditer method_calls_pattern l). \<exists>t c.
               e \<in> set (site_edges cls (class_hierarchy g) t c m)" by blast
  show ?case
  proof (cases e1)
    case (Some e)
    with Cons.prems sl have "g' = g1" by simp
    with g1 n1 show ?thesis by (intro exI[of _ new1]) auto
  next
    case None
    with Cons.prems sl have "scan_lines cls ls (cm1, cmt1, g1) = ((cm', cmt', g'), err)" by simp
    from Cons.IH[OF this] obtain new2 where g': "g' = g1\<lparr>call_graph := call_graph g1 @ new2\<rparr>"
      and n2: "\<forall>e\<in>set new2. \<exists>l\<in>set ls. \<exists>m\<in>set (re_finditer method_calls_pattern l). \<exists>t c.
           e \<in> set (site_edges cls (class_hierarchy g1) t c m)" by blast
    have h: "class_hierarchy g1 = class_hierarchy g" by (simp add: g1)
    have "g' = g\<lparr>call_graph := call_graph g @ (new1 @ new2)\<rparr>" by (simp add: g' g1)
    moreover have "\<forall>e\<in>set (new1 @ new2). \<exists>l'\<in>set (l # ls). \<exists>m\<in>set (re_finditer method_calls_pattern l'). \<exists>t c.
           e \<in> set (site_edges cls (class_hierarchy g) t c m)"
      using n1 n2 unfolding h by auto
    ultimately show ?thesis by blast
  qed
qed

lemma parse_implementation_edges:
  assumes "parse_implementation content file_class_name g = (g', err)"
  shows "\<exists>new. g' = g\<lparr>call_graph := call_graph g @ new,
                        current_class := Some (active_class content file_class_name)\<rparr> \<and>
       (\<forall>e\<in>set new. \<exists>l\<in>set (split NL content). \<exists>m\<in>set (re_finditer method_calls_pattern l). \<exists>t c.
           e \<in> set (site_edges (active_class content file_class_name) (class_hierarchy g) t c m))"
proof -
  let ?cls = "active_class content file_class_name"
  let ?g1 = "g\<lparr>current_class := Some ?cls\<rparr>"
  obtain cm' cmt' where "scan_lines ?cls (split NL content) (None, None, ?g1) = ((cm', cmt', g'), err)"
    using assms by (auto simp: parse_implementation_def Let_def split: prod.splits)
  from scan_lines_edges[OF this] obtain new where
    g': "g' = ?g1\<lparr>call_graph := call_graph ?g1 @ new\<rparr>"
    and n: "\<forall>e\<in>set new. \<exists>l\<in>set (split NL content). \<exists>m\<in>set (re_finditer method_calls_pattern l). \<exists>t c.
           e \<in> set (site_edges ?cls (class_hierarchy ?g1) t c m)" by blast
  from g' have "g' = g\<lparr>call_graph := call_graph g @ new, current_class := Some ?cls\<rparr>" by simp
  with n show ?thesis by (intro exI[of _ new]) simp
qed

lemma callee_method_name_canonical:
  assumes "CHR '':'' \<in> set f \<longrightarrow> [] \<notin> set (map strip (split CHR '':'' f))"
  shows "callee_method_name f = format_method_name f"
proof (cases "CHR '':'' \<in> set f")
  case False
  then show ?thesis
    by (simp add: callee_method_name_def format_method_name_def colon_in_strip)
next
  case True
  with assms have "[] \<notin> set (map strip (split CHR '':'' f))" by simp
  then have "filter (\<lambda>p. p \<noteq> []) (map strip (split CHR '':'' f)) = map strip (split CHR '':'' f)"
    by (intro filter_True) blast
  with True show ?thesis
    by (simp add: callee_method_name_def format_method_name_def colon_in_strip
        map_strip_split_strip Let_def)
qed

lemma site_edge_fields:
  assumes "e \<in> set (site_edges cls h cmt cm m)"
  shows "caller_class e = cls"
    and "callee_class e = resolve_receiver cls h (m_group m 1)"
    and "caller_method e = replace_dots (fstr cmt @ '' ['' @ cls @ '' '' @ cm @ '']'')"
    and "\<exists>kind. callee_method_type (m_group m 2) (resolve_receiver cls h (m_group m 1)) = Inr kind \<and>
           callee_method e = replace_dots (kind @ '' ['' @ callee_class e @ '' '' @
             callee_method_name (m_group m 2) @ '']'')"
    and "callee_type e = ''-''"
    and "invocation_index e = None"
proof -
  from assms site_edges_cases[of cls h cmt cm m] obtain kind where
    k: "callee_method_type (m_group m 2) (resolve_receiver cls h (m_group m 1)) = Inr kind"
    and e: "e = MethodCall_init cls (replace_dots (fstr cmt @ '' ['' @ cls @ '' '' @ cm @ '']''))
        (resolve_receiver cls h (m_group m 1))
        (replace_dots (kind @ '' ['' @ resolve_receiver cls h (m_group m 1) @ '' '' @
           callee_method_name (m_group m 2) @ '']''))"
    by auto
  show "caller_class e = cls" "callee_class e = resolve_receiver cls h (m_group m 1)"
    "caller_method e = replace_dots (fstr cmt @ '' ['' @ cls @ '' '' @ cm @ '']'')"
    "invocation_index e = None"
    by (simp_all add: e MethodCall_init_def)
  show "\<exists>kind. callee_method_type (m_group m 2) (resolve_receiver cls h (m_group m 1)) = Inr kind \<and>
           callee_method e = replace_dots (kind @ '' ['' @ callee_class e @ '' '' @
             callee_method_name (m_group m 2) @ '']'')"
    using k by (simp add: e MethodCall_init_def)
  from callee_method_type_cases[OF k] have kk: "kind = ''+'' \<or> kind = ''-''" .
  show "callee_type e = ''-''" using kk
    by (auto simp: e MethodCall_init_def starts_with_prefix_def class_method_prefixes_def
        replace_dots_def)
qed

section \<open>Canonical method names (C4)\<close>

text \<open>
  C4, as amended. \<^verbatim>\<open>format_method_name\<close> canonicalizes every method-name token as the
  specification says: without a colon the token is trimmed; with one, the colon-split
  segments are trimmed, the empty ones dropped, the rest joined with a colon and a colon is
  put at the end; so \<^verbatim>\<open>foo: bar :\<close> gives \<^verbatim>\<open>foo:bar:\<close> and \<^verbatim>\<open>run\<close> gives \<^verbatim>\<open>run\<close>.
  The callee string recorded on a call edge is \<^verbatim>\<open><kind> [<class> <name>]\<close> with every dot
  replaced by a blank, where the name is formed from the message tokens by the rule written
  out in \<^verbatim>\<open>parse_implementation\<close>; that rule gives the canonical name whenever the tokens
  have no empty colon segment.
\<close>

theorem canonical_method_name:
  "format_method_name s =
     (if CHR '':'' \<in> set s
      then join '':'' (filter (\<lambda>p. p \<noteq> []) (map strip (split CHR '':'' s))) @ '':''
      else strip s) \<and>
   format_method_name ''foo: bar :'' = ''foo:bar:'' \<and>
   format_method_name ''run'' = ''run'' \<and>
   (\<exists>new. call_graph (fst (parse_implementation content file_class_name g)) = call_graph g @ new \<and>
      (\<forall>e\<in>set new. \<exists>l\<in>set (split NL content).
         \<exists>m\<in>set (re_finditer method_calls_pattern l). \<exists>kind.
           (kind = ''+'' \<or> kind = ''-'') \<and>
           callee_method e =
             replace_dots (kind @ '' ['' @ callee_class e @ '' '' @
               callee_method_name (m_group m 2) @ '']''))) \<and>
   ((CHR '':'' \<in> set f \<longrightarrow> [] \<notin> set (map strip (split CHR '':'' f))) \<longrightarrow>
      callee_method_name f = format_method_name f)"
proof (intro conjI)
  show "format_method_name ''foo: bar :'' = ''foo:bar:''" by code_simp
  show "format_method_name ''run'' = ''run''" by code_simp
  show "format_method_name s =
     (if CHR '':'' \<in> set s
      then join '':'' (filter (\<lambda>p. p \<noteq> []) (map strip (split CHR '':'' s))) @ '':''
      else strip s)"
    by (simp add: format_method_name_no_colon format_method_name_colon)
  show "(CHR '':'' \<in> set f \<longrightarrow> [] \<notin> set (map strip (split CHR '':'' f))) \<longrightarrow>
      callee_method_name f = format_method_name f"
    using callee_method_name_canonical by blast
next
  let ?cls = "active_class content file_class_name"
  obtain g' err where pi: "parse_implementation content file_class_name g = (g', err)"
    by (cases "parse_implementation content file_class_name g")
  from parse_implementation_edges[OF pi] obtain new where
    g': "g' = g\<lparr>call_graph := call_graph g @ new, current_class := Some ?cls\<rparr>"
    and n: "\<forall>e\<in>set new. \<exists>l\<in>set (split NL content).
        \<exists>m\<in>set (re_finditer method_calls_pattern l). \<exists>t c.
           e \<in> set (site_edges ?cls (class_hierarchy g) t c m)" by blast
  have "\<forall>e\<in>set new. \<exists>l\<in>set (split NL content).
         \<exists>m\<in>set (re_finditer method_calls_pattern l). \<exists>kind.
           (kind = ''+'' \<or> kind = ''-'') \<and>
           callee_method e =
             replace_dots (kind @ '' ['' @ callee_class e @ '' '' @
               callee_method_name (m_group m 2) @ '']'')"
  proof
    fix e assume "e \<in> set new"
    with n obtain l m t c where l: "l \<in> set (split NL content)"
      and m: "m \<in> set (re_finditer method_calls_pattern l)"
      and e: "e \<in> set (site_edges ?cls (class_hierarchy g) t c m)" by blast
    from site_edge_fields(4)[OF e] obtain kind where
      k: "callee_method_type (m_group m 2) (resolve_receiver ?cls (class_hierarchy g) (m_group m 1)) = Inr kind"
      and cm: "callee_method e = replace_dots (kind @ '' ['' @ callee_class e @ '' '' @
             callee_method_name (m_group m 2) @ '']'')" by blast
    from callee_method_type_cases[OF k] have "kind = ''+'' \<or> kind = ''-''" .
    with cm l m show "\<exists>l\<in>set (split NL content).
         \<exists>m\<in>set (re_finditer method_calls_pattern l). \<exists>kind.
           (kind = ''+'' \<or> kind = ''-'') \<and>
           callee_method e =
             replace_dots (kind @ '' ['' @ callee_class e @ '' '' @
               callee_method_name (m_group m 2) @ '']'')" by blast
  qed
  with g' pi show "\<exists>new. call_graph (fst (parse_implementation content file_class_name g)) = call_graph g @ new \<and>
      (\<forall>e\<in>set new. \<exists>l\<in>set (split NL content).
         \<exists>m\<in>set (re_finditer method_calls_pattern l). \<exists>kind.
           (kind = ''+'' \<or> kind = ''-'') \<and>
           callee_method e =
             replace_dots (kind @ '' ['' @ callee_class e @ '' '' @
               callee_method_name (m_group m 2) @ '']''))"
    by (intro exI[of _ new]) simp
qed

theorem canonical_method_name_witness:
  "map callee_method (call_graph (fst (parse_implementation
       ''-(void)layout {\<newline>    [self setValue:x forKey:y];\<newline>}'' ''Dog'' CallGraphGenerator_init)))
     = [''- [Dog setValue:x forKey:y:]''] \<and>
   (\<exists>new. call_graph (fst (parse_implementation
       ''-(void)layout {\<newline>    [self setValue:x forKey:y];\<newline>}'' ''Dog'' CallGraphGenerator_init))
         = call_graph CallGraphGenerator_init @ new \<and>
      (\<forall>e\<in>set new.
         \<exists>l\<in>set (split NL ''-(void)layout {\<newline>    [self setValue:x forKey:y];\<newline>}'').
         \<exists>m\<in>set (re_finditer method_calls_pattern l). \<exists>kind.
           (kind = ''+'' \<or> kind = ''-'') \<and>
           callee_method e =
             replace_dots (kind @ '' ['' @ callee_class e @ '' '' @
               callee_method_name (m_group m 2) @ '']''))) \<and>
   CHR '':'' \<in> set ''setValue:x forKey:y'' \<and>
   [] \<notin> set (map strip (split CHR '':'' ''setValue:x forKey:y'')) \<and>
   callee_method_name ''setValue:x forKey:y'' = format_method_name ''setValue:x forKey:y'' \<and>
   format_method_name ''setValue:x forKey:y'' = ''setValue:x forKey:y:''"
proof -
  have 1: "map callee_method (call_graph (fst (parse_implementation
       ''-(void)layout {\<newline>    [self setValue:x forKey:y];\<newline>}'' ''Dog'' CallGraphGenerator_init)))
     = [''- [Dog setValue:x forKey:y:]'']" by code_simp
  have 2: "CHR '':'' \<in> set ''setValue:x forKey:y'' \<and>
      [] \<notin> set (map strip (split CHR '':'' ''setValue:x forKey:y''))" by code_simp
  have 3: "format_method_name ''setValue:x forKey:y'' = ''setValue:x forKey:y:''" by code_simp
  from canonical_method_name[of "''run''"
      "''-(void)layout {\<newline>    [self setValue:x forKey:y];\<newline>}''" "''Dog''"
      CallGraphGenerator_init "''setValue:x forKey:y''"] 1 2 3
  show ?thesis by blast
qed

theorem canonical_method_name_counterexample:
  "format_method_name ''setFrame:self.bounds'' = ''setFrame:self.bounds:'' \<and>
   map callee_method (call_graph (fst (parse_implementation
       ''-(void)layout {\<newline>    [self setFrame:self.bounds];\<newline>}'' ''Dog'' CallGraphGenerator_init)))
     = [''- [Dog setFrame:self bounds:]''] \<and>
   map get_callee_signature (call_graph (fst (parse_implementation
       ''-(void)layout {\<newline>    [self setFrame:self.bounds];\<newline>}'' ''Dog'' CallGraphGenerator_init)))
     = [''-[Dog - [Dog setFrame:self bounds:]:]''] \<and>
   \<not> sublist ''setFrame:self.bounds:'' ''-[Dog - [Dog setFrame:self bounds:]:]''"
  by code_simp

section \<open>Receiver resolution (C5)\<close>

text \<open>
  C5. For every message send that \<^verbatim>\<open>parse_implementation\<close> detects, the callee class of
  the call record is the active class of the unit when the receiver token is \<^verbatim>\<open>self\<close>;
  when it is \<^verbatim>\<open>super\<close>, the superclass recorded for the active class, or
  \<^verbatim>\<open>UnknownSuperOf<activeClass>\<close> when the hierarchy has no entry for it, and then the send
  is recorded without a failure; any other receiver token is the callee class as it is.
\<close>

theorem receiver_resolution:
  "(\<exists>new. call_graph (fst (parse_implementation content file_class_name g)) = call_graph g @ new \<and>
      (\<forall>e\<in>set new. \<exists>l\<in>set (split NL content).
         \<exists>m\<in>set (re_finditer method_calls_pattern l).
           callee_class e =
             (if m_group m 1 = ''self'' then active_class content file_class_name
              else if m_group m 1 = ''super''
                then (case map_of (class_hierarchy g) (active_class content file_class_name) of
                        Some superclass \<Rightarrow> superclass
                      | None \<Rightarrow> ''UnknownSuperOf'' @ active_class content file_class_name)
              else m_group m 1))) \<and>
   (fst (scan_call cls cmt cm m g) = g \<or>
    (\<exists>e. fst (scan_call cls cmt cm m g) = g\<lparr>call_graph := call_graph g @ [e]\<rparr> \<and>
       callee_class e =
         (if m_group m 1 = ''self'' then cls
          else if m_group m 1 = ''super''
            then (case map_of (class_hierarchy g) cls of
                    Some superclass \<Rightarrow> superclass
                  | None \<Rightarrow> ''UnknownSuperOf'' @ cls)
          else m_group m 1))) \<and>
   (m_group m 1 = ''super'' \<and> map_of (class_hierarchy g) cls = None \<and> m_group m 2 \<noteq> [] \<longrightarrow>
      snd (scan_call cls cmt cm m g) = None \<and>
      map callee_class (call_graph (fst (scan_call cls cmt cm m g))) =
        map callee_class (call_graph g) @ [''UnknownSuperOf'' @ cls])"
proof (intro conjI)
  let ?cls = "active_class content file_class_name"
  obtain g' err where pi: "parse_implementation content file_class_name g = (g', err)"
    by (cases "parse_implementation content file_class_name g")
  from parse_implementation_edges[OF pi] obtain new where
    g': "g' = g\<lparr>call_graph := call_graph g @ new, current_class := Some ?cls\<rparr>"
    and n: "\<forall>e\<in>set new. \<exists>l\<in>set (split NL content).
        \<exists>m\<in>set (re_finditer method_calls_pattern l). \<exists>t c.
           e \<in> set (site_edges ?cls (class_hierarchy g) t c m)" by blast
  have "\<forall>e\<in>set new. \<exists>l\<in>set (split NL content).
         \<exists>m\<in>set (re_finditer method_calls_pattern l).
           callee_class e = resolve_receiver ?cls (class_hierarchy g) (m_group m 1)"
    using n site_edge_fields(2) by blast
  with g' pi show "\<exists>new. call_graph (fst (parse_implementation content file_class_name g)) = call_graph g @ new \<and>
      (\<forall>e\<in>set new. \<exists>l\<in>set (split NL content).
         \<exists>m\<in>set (re_finditer method_calls_pattern l).
           callee_class e =
             (if m_group m 1 = ''self'' then ?cls
              else if m_group m 1 = ''super''
                then (case map_of (class_hierarchy g) ?cls of
                        Some superclass \<Rightarrow> superclass
                      | None \<Rightarrow> ''UnknownSuperOf'' @ ?cls)
              else m_group m 1))"
    unfolding resolve_receiver_def by (intro exI[of _ new]) simp
next
  have a: "fst (scan_call cls cmt cm m g) =
     g\<lparr>call_graph := call_graph g @ site_edges cls (class_hierarchy g) cmt cm m\<rparr>"
    by (rule scan_call_appends)
  show "fst (scan_call cls cmt cm m g) = g \<or>
    (\<exists>e. fst (scan_call cls cmt cm m g) = g\<lparr>call_graph := call_graph g @ [e]\<rparr> \<and>
       callee_class e =
         (if m_group m 1 = ''self'' then cls
          else if m_group m 1 = ''super''
            then (case map_of (class_hierarchy g) cls of
                    Some superclass \<Rightarrow> superclass
                  | None \<Rightarrow> ''UnknownSuperOf'' @ cls)
          else m_group m 1))"
  proof (cases "site_edges cls (class_hierarchy g) cmt cm m")
    case Nil
    with a show ?thesis by simp
  next
    case (Cons e es)
    with site_edges_cases[of cls "class_hierarchy g" cmt cm m] have es: "es = []" by auto
    from Cons have "e \<in> set (site_edges cls (class_hierarchy g) cmt cm m)" by simp
    from site_edge_fields(2)[OF this]
    have "callee_class e = resolve_receiver cls (class_hierarchy g) (m_group m 1)" .
    with a Cons es show ?thesis unfolding resolve_receiver_def by auto
  qed
next
  show "m_group m 1 = ''super'' \<and> map_of (class_hierarchy g) cls = None \<and> m_group m 2 \<noteq> [] \<longrightarrow>
      snd (scan_call cls cmt cm m g) = None \<and>
      map callee_class (call_graph (fst (scan_call cls cmt cm m g))) =
        map callee_class (call_graph g) @ [''UnknownSuperOf'' @ cls]"
    by (simp add: scan_call_def resolve_receiver_def callee_method_type_def Let_def
        MethodCall_init_def)
qed

theorem receiver_resolution_witness:
  "map callee_class (call_graph (fst (parse_implementation
      ''@implementation C\<newline>-(void)foo {\<newline>    [super helper];\<newline>    [self run];\<newline>    [NSLog print];\<newline>}''
      ''C'' CallGraphGenerator_init)))
     = [''UnknownSuperOfC'', ''C'', ''NSLog''] \<and>
   snd (parse_implementation
      ''@implementation C\<newline>-(void)foo {\<newline>    [super helper];\<newline>    [self run];\<newline>    [NSLog print];\<newline>}''
      ''C'' CallGraphGenerator_init) = None \<and>
   map callee_class (call_graph (fst (parse_implementation
      ''@implementation B\<newline>-(void)foo {\<newline>    [super helper];\<newline>}''
      ''B'' (CallGraphGenerator_init\<lparr>class_hierarchy := [(''B'', ''A'')]\<rparr>))))
     = [''A''] \<and>
   (\<exists>new. call_graph (fst (parse_implementation
      ''@implementation C\<newline>-(void)foo {\<newline>    [super helper];\<newline>    [self run];\<newline>    [NSLog print];\<newline>}''
      ''C'' CallGraphGenerator_init)) = call_graph CallGraphGenerator_init @ new \<and>
      (\<forall>e\<in>set new. \<exists>l\<in>set (split NL
          ''@implementation C\<newline>-(void)foo {\<newline>    [super helper];\<newline>    [self run];\<newline>    [NSLog print];\<newline>}'').
         \<exists>m\<in>set (re_finditer method_calls_pattern l).
           callee_class e =
             (if m_group m 1 = ''self'' then ''C''
              else if m_group m 1 = ''super''
                then (case map_of (class_hierarchy CallGraphGenerator_init) ''C'' of
                        Some superclass \<Rightarrow> superclass
                      | None \<Rightarrow> ''UnknownSuperOf'' @ ''C'')
              else m_group m 1))) \<and>
   m_group \<lparr>m_start = 4, m_end = 18, m_groups = [1 \<mapsto> ''super'', 2 \<mapsto> ''helper'']\<rparr> 1 = ''super'' \<and>
   map_of (class_hierarchy CallGraphGenerator_init) ''C'' = None \<and>
   m_group \<lparr>m_start = 4, m_end = 18, m_groups = [1 \<mapsto> ''super'', 2 \<mapsto> ''helper'']\<rparr> 2 \<noteq> [] \<and>
   snd (scan_call ''C'' (Some ''-'') ''foo''
         \<lparr>m_start = 4, m_end = 18, m_groups = [1 \<mapsto> ''super'', 2 \<mapsto> ''helper'']\<rparr>
         CallGraphGenerator_init) = None \<and>
   map callee_class (call_graph (fst (scan_call ''C'' (Some ''-'') ''foo''
         \<lparr>m_start = 4, m_end = 18, m_groups = [1 \<mapsto> ''super'', 2 \<mapsto> ''helper'']\<rparr>
         CallGraphGenerator_init))) = [''UnknownSuperOfC'']"
proof -
  let ?c = "''@implementation C\<newline>-(void)foo {\<newline>    [super helper];\<newline>    [self run];\<newline>    [NSLog print];\<newline>}''"
  let ?m = "\<lparr>m_start = 4, m_end = 18, m_groups = [1 \<mapsto> ''super'', 2 \<mapsto> ''helper'']\<rparr>"
  have 1: "map callee_class (call_graph (fst (parse_implementation ?c ''C'' CallGraphGenerator_init)))
     = [''UnknownSuperOfC'', ''C'', ''NSLog'']" by code_simp
  have 2: "snd (parse_implementation ?c ''C'' CallGraphGenerator_init) = None" by code_simp
  have 3: "map callee_class (call_graph (fst (parse_implementation
      ''@implementation B\<newline>-(void)foo {\<newline>    [super helper];\<newline>}''
      ''B'' (CallGraphGenerator_init\<lparr>class_hierarchy := [(''B'', ''A'')]\<rparr>))))
     = [''A'']" by code_simp
  have 4: "active_class ?c ''C'' = ''C''" by code_simp
  have 5: "m_group ?m 1 = ''super''" "m_group ?m 2 \<noteq> []"
    "map_of (class_hierarchy CallGraphGenerator_init) ''C'' = None"
    "call_graph CallGraphGenerator_init = []"
    by (simp_all add: m_group_def CallGraphGenerator_init_def)
  from receiver_resolution[of ?c "''C''" CallGraphGenerator_init "''C''" "Some ''-''" "''foo''" ?m]
  show ?thesis unfolding 4 using 1 2 3 5 by simp
qed

section \<open>Method-context tracking (C7)\<close>

lemma scan_line_keeps_context:
  "re_search method_pattern line = None \<Longrightarrow>
     fst (fst (scan_line cls line (cm, cmt, g))) = cm \<and>
     fst (snd (fst (scan_line cls line (cm, cmt, g)))) = cmt"
  by (simp add: scan_line_def split: option.splits prod.splits)

lemma scan_lines_no_context:
  "\<forall>l\<in>set ls. re_search method_pattern l = None \<Longrightarrow>
     scan_lines cls ls (None, cmt, g) = ((None, cmt, g), None)"
  by (induction ls) (simp_all add: scan_line_no_context)

lemma scan_lines_keep_context:
  "\<forall>l\<in>set ls. re_search method_pattern l = None \<Longrightarrow>
     fst (fst (scan_lines cls ls (cm, cmt, g))) = cm \<and>
     fst (snd (fst (scan_lines cls ls (cm, cmt, g)))) = cmt"
proof (induction ls arbitrary: g)
  case Nil
  then show ?case by simp
next
  case (Cons l ls)
  from Cons.prems have l: "re_search method_pattern l = None" by simp
  obtain cm1 cmt1 g1 e1 where sl: "scan_line cls l (cm, cmt, g) = ((cm1, cmt1, g1), e1)"
    by (metis prod.exhaust)
  from scan_line_keeps_context[OF l, of cls cm cmt g] sl have k: "cm1 = cm" "cmt1 = cmt" by simp_all
  show ?case
  proof (cases e1)
    case None
    with sl k Cons.IH[of g1] Cons.prems show ?thesis by simp
  next
    case (Some e)
    with sl k show ?thesis by simp
  qed
qed

text \<open>
  C7. In the loop over the lines of a definition unit, a line on which the method header
  pattern matches sets the current method and its kind marker from the header and appends no
  call record, whatever else the line holds; a line without a header leaves the current
  method and kind as they are, and appends nothing when no method is current. So the lines
  before the first header of a unit add no call record, a unit without a header adds none at
  all, and the context set by a header stays until the next header line or the end of the
  unit.
\<close>

theorem method_context_tracking:
  "(re_search method_pattern line = Some mm \<longrightarrow>
      scan_line cls line (cm, cmt, g) = ((Some (m_group mm 3), Some (m_group mm 1), g), None)) \<and>
   (re_search method_pattern line = None \<longrightarrow>
      scan_line cls line (None, cmt, g) = ((None, cmt, g), None) \<and>
      fst (fst (scan_line cls line (cm, cmt, g))) = cm \<and>
      fst (snd (fst (scan_line cls line (cm, cmt, g)))) = cmt) \<and>
   ((\<forall>l\<in>set pre. re_search method_pattern l = None) \<longrightarrow>
      scan_lines cls (pre @ rest) (None, None, g) = scan_lines cls rest (None, None, g)) \<and>
   ((\<forall>l\<in>set ls. re_search method_pattern l = None) \<longrightarrow>
      fst (fst (scan_lines cls ls (cm, cmt, g))) = cm \<and>
      fst (snd (fst (scan_lines cls ls (cm, cmt, g)))) = cmt) \<and>
   ((\<forall>l\<in>set (split NL content). re_search method_pattern l = None) \<longrightarrow>
      call_graph (fst (parse_implementation content file_class_name g)) = call_graph g)"
proof (intro conjI impI)
  assume "re_search method_pattern line = Some mm"
  then show "scan_line cls line (cm, cmt, g) = ((Some (m_group mm 3), Some (m_group mm 1), g), None)"
    by (rule scan_line_header)
next
  assume n: "re_search method_pattern line = None"
  then show "scan_line cls line (None, cmt, g) = ((None, cmt, g), None)"
    by (rule scan_line_no_context)
  from scan_line_keeps_context[OF n]
  show "fst (fst (scan_line cls line (cm, cmt, g))) = cm"
    "fst (snd (fst (scan_line cls line (cm, cmt, g)))) = cmt" by blast+
next
  assume "\<forall>l\<in>set pre. re_search method_pattern l = None"
  then have "scan_lines cls pre (None, None, g) = ((None, None, g), None)"
    by (rule scan_lines_no_context)
  then show "scan_lines cls (pre @ rest) (None, None, g) = scan_lines cls rest (None, None, g)"
    by (simp add: scan_lines_append)
next
  assume a: "\<forall>l\<in>set ls. re_search method_pattern l = None"
  from scan_lines_keep_context[OF a]
  show "fst (fst (scan_lines cls ls (cm, cmt, g))) = cm"
    "fst (snd (fst (scan_lines cls ls (cm, cmt, g)))) = cmt" by blast+
next
  assume "\<forall>l\<in>set (split NL content). re_search method_pattern l = None"
  then have "scan_lines (active_class content file_class_name) (split NL content)
      (None, None, g\<lparr>current_class := Some (active_class content file_class_name)\<rparr>)
    = ((None, None, g\<lparr>current_class := Some (active_class content file_class_name)\<rparr>), None)"
    by (rule scan_lines_no_context)
  then show "call_graph (fst (parse_implementation content file_class_name g)) = call_graph g"
    by (simp add: parse_implementation_def Let_def)
qed

theorem method_context_tracking_witness:
  "re_search method_pattern ''-(void)bark { [self growl]; }'' \<noteq> None \<and>
   scan_line ''Dog'' ''-(void)bark { [self growl]; }'' (None, None, CallGraphGenerator_init)
     = ((Some ''bark'', Some ''-'', CallGraphGenerator_init), None) \<and>
   re_search method_pattern ''    [self wag];'' = None \<and>
   scan_line ''Dog'' ''    [self wag];'' (None, None, CallGraphGenerator_init)
     = ((None, None, CallGraphGenerator_init), None) \<and>
   fst (fst (scan_line ''Dog'' ''    [self wag];'' (Some ''bark'', Some ''-'', CallGraphGenerator_init)))
     = Some ''bark'' \<and>
   fst (snd (fst (scan_line ''Dog'' ''    [self wag];'' (Some ''bark'', Some ''-'', CallGraphGenerator_init))))
     = Some ''-'' \<and>
   scan_lines ''Dog'' ([''    [self wag];'', ''}''] @ [''-(void)bark { [self growl]; }'', ''    [self wag];''])
       (None, None, CallGraphGenerator_init)
     = scan_lines ''Dog'' [''-(void)bark { [self growl]; }'', ''    [self wag];'']
         (None, None, CallGraphGenerator_init) \<and>
   fst (fst (scan_lines ''Dog'' [''    [self wag];'', ''}''] (Some ''bark'', Some ''-'', CallGraphGenerator_init)))
     = Some ''bark'' \<and>
   map callee_method (call_graph (snd (snd (fst
       (scan_lines ''Dog'' [''    [self wag];'', ''}''] (Some ''bark'', Some ''-'', CallGraphGenerator_init))))))
     = [''- [Dog wag]''] \<and>
   call_graph (fst (parse_implementation ''    [self wag];\<newline>}'' ''Dog'' CallGraphGenerator_init))
     = call_graph CallGraphGenerator_init"
proof -
  let ?H = "''-(void)bark { [self growl]; }''"
  let ?B = "''    [self wag];''"
  let ?g = CallGraphGenerator_init
  have "map_option (\<lambda>m. (m_group m 3, m_group m 1)) (re_search method_pattern ?H)
          = Some (''bark'', ''-'')" by code_simp
  then obtain mm where mm: "re_search method_pattern ?H = Some mm"
    "m_group mm 3 = ''bark''" "m_group mm 1 = ''-''"
    by (cases "re_search method_pattern ?H") auto
  have b: "re_search method_pattern ?B = None" by code_simp
  have c: "re_search method_pattern ''}'' = None" by code_simp
  have ls: "\<forall>l\<in>set [?B, ''}'']. re_search method_pattern l = None" using b c by simp
  have sp: "split NL ''    [self wag];\<newline>}'' = [?B, ''}'']" by code_simp
  have ev: "map callee_method (call_graph (snd (snd (fst
       (scan_lines ''Dog'' [?B, ''}''] (Some ''bark'', Some ''-'', ?g))))))
     = [''- [Dog wag]'']" by code_simp
  note t1 = method_context_tracking[where line = ?H and mm = mm and cls = "''Dog''"
      and cm = None and cmt = None and g = ?g]
  note t2 = method_context_tracking[where line = ?B and cls = "''Dog''"
      and cm = "Some ''bark''" and cmt = "Some ''-''" and g = ?g and pre = "[?B, ''}'']"
      and rest = "[?H, ?B]" and ls = "[?B, ''}'']" and content = "''    [self wag];\<newline>}''"
      and file_class_name = "''Dog''"]
  note t3 = method_context_tracking[where line = ?B and cls = "''Dog''"
      and cm = None and cmt = None and g = ?g]
  from t1 mm have 1: "scan_line ''Dog'' ?H (None, None, ?g) = ((Some ''bark'', Some ''-'', ?g), None)"
    by simp
  from t3 b have 2: "scan_line ''Dog'' ?B (None, None, ?g) = ((None, None, ?g), None)" by simp
  from t2 b have 3: "fst (fst (scan_line ''Dog'' ?B (Some ''bark'', Some ''-'', ?g))) = Some ''bark''"
    "fst (snd (fst (scan_line ''Dog'' ?B (Some ''bark'', Some ''-'', ?g)))) = Some ''-''" by simp_all
  from t2 ls have 4: "scan_lines ''Dog'' ([?B, ''}''] @ [?H, ?B]) (None, None, ?g)
     = scan_lines ''Dog'' [?H, ?B] (None, None, ?g)" by blast
  from t2 ls have 5: "fst (fst (scan_lines ''Dog'' [?B, ''}''] (Some ''bark'', Some ''-'', ?g))) = Some ''bark''"
    by blast
  from t2 ls have 6: "call_graph (fst (parse_implementation ''    [self wag];\<newline>}'' ''Dog'' ?g)) = call_graph ?g"
    unfolding sp by blast
  from mm(1) b 1 2 3 4 5 6 ev show ?thesis by simp
qed

section \<open>Declaration units (C9)\<close>

lemma map_of_add_method:
  "map_of (add_method cn mn table) k =
     (if k = cn then Some (insert mn (case map_of table cn of None \<Rightarrow> {} | Some ms \<Rightarrow> ms))
      else map_of table k)"
  by (simp add: add_method_def update_conv')

lemma keys_add_method:
  "fst ` set (add_method cn mn table) = insert cn (fst ` set table)"
  by (simp add: add_method_def dom_update)

lemma fold_add_methods:
  "class_hierarchy (fold (\<lambda>m g'. g'\<lparr>class_methods := add_method cn (m_group m 3) (class_methods g')\<rparr>) ms g)
     = class_hierarchy g \<and>
   call_graph (fold (\<lambda>m g'. g'\<lparr>class_methods := add_method cn (m_group m 3) (class_methods g')\<rparr>) ms g)
     = call_graph g \<and>
   current_class (fold (\<lambda>m g'. g'\<lparr>class_methods := add_method cn (m_group m 3) (class_methods g')\<rparr>) ms g)
     = current_class g \<and>
   (\<forall>k. map_of (class_methods
        (fold (\<lambda>m g'. g'\<lparr>class_methods := add_method cn (m_group m 3) (class_methods g')\<rparr>) ms g)) k =
     (if k = cn \<and> ms \<noteq> []
      then Some ((\<lambda>m. m_group m 3) ` set ms \<union>
                 (case map_of (class_methods g) cn of None \<Rightarrow> {} | Some old \<Rightarrow> old))
      else map_of (class_methods g) k)) \<and>
   fst ` set (class_methods
        (fold (\<lambda>m g'. g'\<lparr>class_methods := add_method cn (m_group m 3) (class_methods g')\<rparr>) ms g))
     = (if ms = [] then fst ` set (class_methods g) else insert cn (fst ` set (class_methods g)))"
proof (induction ms arbitrary: g)
  case Nil
  then show ?case by simp
next
  case (Cons m ms)
  let ?g1 = "g\<lparr>class_methods := add_method cn (m_group m 3) (class_methods g)\<rparr>"
  note ih = Cons.IH[of ?g1]
  show ?case
    apply (simp only: fold_simps)
    apply (intro conjI allI)
    subgoal using ih by simp
    subgoal using ih by simp
    subgoal using ih by simp
    subgoal for k using ih by (cases "ms = []") (auto simp: map_of_add_method)
    subgoal using ih by (cases "ms = []") (auto simp: keys_add_method)
    done
qed


text \<open>
  C9. \<^verbatim>\<open>parse_interface\<close> files everything it finds under the class name it is given,
  which \<^verbatim>\<open>analyze_file\<close> takes from the file's stem: the superclass of the first
  \<^verbatim>\<open>@interface X : Y\<close> header is recorded as the superclass of that name, and every method
  found is added to the set of that name. Only the second group of the header is read; the
  class name \<^verbatim>\<open>X\<close> it captures is dropped. No entry of another class changes. A unit
  given the name \<^verbatim>\<open>Z\<close> whose text declares \<^verbatim>\<open>X : Y\<close> records \<^verbatim>\<open>Z -> Y\<close> and its
  methods under \<^verbatim>\<open>Z\<close>.
\<close>

theorem declarations_under_fallback_name:
  "(re_search interface_pattern content = Some m \<longrightarrow>
      class_hierarchy (parse_interface content class_name g)
        = AList.update class_name (m_group m 2) (class_hierarchy g) \<and>
      map_of (class_hierarchy (parse_interface content class_name g)) class_name
        = Some (m_group m 2)) \<and>
   (re_search interface_pattern content = None \<longrightarrow>
      class_hierarchy (parse_interface content class_name g) = class_hierarchy g) \<and>
   (k \<noteq> class_name \<longrightarrow>
      map_of (class_hierarchy (parse_interface content class_name g)) k
        = map_of (class_hierarchy g) k \<and>
      map_of (class_methods (parse_interface content class_name g)) k
        = map_of (class_methods g) k) \<and>
   map_of (class_methods (parse_interface content class_name g)) class_name =
     (if re_finditer interface_method_pattern content = []
      then map_of (class_methods g) class_name
      else Some ((\<lambda>mm. m_group mm 3) ` set (re_finditer interface_method_pattern content) \<union>
                 (case map_of (class_methods g) class_name of None \<Rightarrow> {} | Some old \<Rightarrow> old))) \<and>
   call_graph (parse_interface content class_name g) = call_graph g \<and>
   (file_suffix f = ''.h'' \<and> read_text f = Inr content \<longrightarrow>
      fst (analyze_file f g) = parse_interface content (file_stem f) g)"
proof -
  let ?F = "\<lambda>m g'. g'\<lparr>class_methods := add_method class_name (m_group m 3) (class_methods g')\<rparr>"
  let ?ms = "re_finditer interface_method_pattern content"
  define g1 where "g1 = (case re_search interface_pattern content of
                  Some m \<Rightarrow> g\<lparr>class_hierarchy := AList.update class_name (m_group m 2) (class_hierarchy g)\<rparr>
                | None \<Rightarrow> g)"
  have pi: "parse_interface content class_name g = fold ?F ?ms g1"
    by (simp add: parse_interface_def g1_def Let_def split: option.splits)
  note f = fold_add_methods[of class_name ?ms g1]
  have cm1: "class_methods g1 = class_methods g" and cg1: "call_graph g1 = call_graph g"
    by (simp_all add: g1_def split: option.splits)
  have h: "class_hierarchy (parse_interface content class_name g) = class_hierarchy g1"
    using f pi by simp
  show ?thesis
  proof (intro conjI impI)
    assume "re_search interface_pattern content = Some m"
    then have "class_hierarchy g1 = AList.update class_name (m_group m 2) (class_hierarchy g)"
      by (simp add: g1_def)
    with h show "class_hierarchy (parse_interface content class_name g)
        = AList.update class_name (m_group m 2) (class_hierarchy g)" by simp
    then show "map_of (class_hierarchy (parse_interface content class_name g)) class_name
        = Some (m_group m 2)" by (simp add: update_conv')
  next
    assume "re_search interface_pattern content = None"
    with h show "class_hierarchy (parse_interface content class_name g) = class_hierarchy g"
      by (simp add: g1_def)
  next
    assume k: "k \<noteq> class_name"
    show "map_of (class_hierarchy (parse_interface content class_name g)) k
        = map_of (class_hierarchy g) k"
      unfolding h using k by (simp add: g1_def update_conv' split: option.splits)
    show "map_of (class_methods (parse_interface content class_name g)) k
        = map_of (class_methods g) k"
      using f k unfolding pi cm1 by simp
  next
    show "map_of (class_methods (parse_interface content class_name g)) class_name =
     (if ?ms = [] then map_of (class_methods g) class_name
      else Some ((\<lambda>mm. m_group mm 3) ` set ?ms \<union>
                 (case map_of (class_methods g) class_name of None \<Rightarrow> {} | Some old \<Rightarrow> old)))"
      using f unfolding pi cm1 by simp
  next
    show "call_graph (parse_interface content class_name g) = call_graph g"
      using f unfolding pi cg1 by simp
  next
    assume "file_suffix f = ''.h'' \<and> read_text f = Inr content"
    then show "fst (analyze_file f g) = parse_interface content (file_stem f) g"
      by (simp add: analyze_file_def Let_def)
  qed
qed

theorem declarations_under_fallback_name_witness:
  "re_search interface_pattern ''@interface X : Y\<newline>- (void)foo;\<newline>@end'' \<noteq> None \<and>
   parse_interface ''@interface X : Y\<newline>- (void)foo;\<newline>@end'' ''Z'' CallGraphGenerator_init
     = CallGraphGenerator_init\<lparr>class_methods := [(''Z'', {''foo''})],
                               class_hierarchy := [(''Z'', ''Y'')]\<rparr> \<and>
   class_hierarchy (parse_interface ''@interface X : Y\<newline>- (void)foo;\<newline>@end'' ''Z''
       CallGraphGenerator_init) = [(''Z'', ''Y'')] \<and>
   ''X'' \<noteq> ''Z'' \<and>
   map_of (class_hierarchy (parse_interface ''@interface X : Y\<newline>- (void)foo;\<newline>@end'' ''Z''
       CallGraphGenerator_init)) ''X'' = None \<and>
   map_of (class_methods (parse_interface ''@interface X : Y\<newline>- (void)foo;\<newline>@end'' ''Z''
       CallGraphGenerator_init)) ''X'' = None \<and>
   re_search interface_pattern ''- (void)foo;'' = None \<and>
   class_hierarchy (parse_interface ''- (void)foo;'' ''Z'' CallGraphGenerator_init) = [] \<and>
   fst (analyze_file \<lparr>file_path = ''Source/Z.h'', file_stem = ''Z'', file_suffix = ''.h'',
                       read_text = Inr ''@interface X : Y\<newline>- (void)foo;\<newline>@end''\<rparr>
          CallGraphGenerator_init)
     = parse_interface ''@interface X : Y\<newline>- (void)foo;\<newline>@end'' ''Z'' CallGraphGenerator_init"
proof -
  let ?C = "''@interface X : Y\<newline>- (void)foo;\<newline>@end''"
  let ?g = CallGraphGenerator_init
  let ?f = "\<lparr>file_path = ''Source/Z.h'', file_stem = ''Z'', file_suffix = ''.h'',
             read_text = Inr ?C\<rparr>"
  have "map_option (\<lambda>m. m_group m 2) (re_search interface_pattern ?C) = Some ''Y''"
    by code_simp
  then obtain m where m: "re_search interface_pattern ?C = Some m" "m_group m 2 = ''Y''"
    by (cases "re_search interface_pattern ?C") auto
  have n: "re_search interface_pattern ''- (void)foo;'' = None" by code_simp
  have ev: "parse_interface ?C ''Z'' ?g
     = ?g\<lparr>class_methods := [(''Z'', {''foo''})], class_hierarchy := [(''Z'', ''Y'')]\<rparr>"
    by code_simp
  have i: "class_hierarchy ?g = []" "class_methods ?g = []"
    by (simp_all add: CallGraphGenerator_init_def)
  note t1 = declarations_under_fallback_name[where content = ?C and m = m and class_name = "''Z''"
      and g = ?g and k = "''X''" and f = ?f]
  note t2 = declarations_under_fallback_name[where content = "''- (void)foo;''"
      and class_name = "''Z''" and g = ?g]
  from t1 m i have 1: "class_hierarchy (parse_interface ?C ''Z'' ?g) = [(''Z'', ''Y'')]" by simp
  from t1 i have 2: "map_of (class_hierarchy (parse_interface ?C ''Z'' ?g)) ''X'' = None"
    "map_of (class_methods (parse_interface ?C ''Z'' ?g)) ''X'' = None" by simp_all
  from t2 n i have 3: "class_hierarchy (parse_interface ''- (void)foo;'' ''Z'' ?g) = []" by simp
  from t1 have 4: "fst (analyze_file ?f ?g) = parse_interface ?C ''Z'' ?g" by simp
  from m(1) n ev 1 2 3 4 show ?thesis by simp
qed

section \<open>The report (C8)\<close>

lemma indexed_Nil: "indexed [] n = []"
  by (simp add: indexed_def)

lemma indexed_Cons:
  "indexed (c # cs) n = c\<lparr>invocation_index := Some n\<rparr> # indexed cs (Suc n)"
proof -
  have "[n..<n + length (c # cs)] = n # [Suc n..<Suc n + length cs]"
    by (subst upt_rec) simp
  then show ?thesis by (simp add: indexed_def)
qed

lemma indexed_length: "length (indexed cs n) = length cs"
  by (simp add: indexed_def)

lemma indexed_index: "map invocation_index (indexed cs n) = map Some [n..<n + length cs]"
proof (induction cs arbitrary: n)
  case Nil
  then show ?case by (simp add: indexed_Nil)
next
  case (Cons c cs)
  have "[n..<n + length (c # cs)] = n # [Suc n..<Suc n + length cs]"
    by (subst upt_rec) simp
  with Cons show ?case by (simp add: indexed_Cons)
qed

lemma indexed_index_of: "map index_of (indexed cs n) = [n..<n + length cs]"
proof -
  have "map index_of (indexed cs n) = map (\<lambda>c. case c of Some i \<Rightarrow> i | None \<Rightarrow> 0) (map invocation_index (indexed cs n))"
    by (simp add: index_of_def comp_def)
  also have "\<dots> = [n..<n + length cs]" unfolding indexed_index by (simp add: comp_def)
  finally show ?thesis .
qed

lemma indexed_same_calls:
  "map (\<lambda>c. c\<lparr>invocation_index := None\<rparr>) (indexed cs n) = map (\<lambda>c. c\<lparr>invocation_index := None\<rparr>) cs"
  by (induction cs arbitrary: n) (simp_all add: indexed_Nil indexed_Cons)

lemma indexed_caller_class: "map caller_class (indexed cs n) = map caller_class cs"
  by (induction cs arbitrary: n) (simp_all add: indexed_Nil indexed_Cons)

lemma calls_of_update:
  "calls_of (AList.update k v bc) k' = (if k' = k then v else calls_of bc k')"
  by (simp add: calls_of_def update_conv')

lemma assign_indices_calls:
  "fst (assign_indices calls n bc) = indexed calls n"
  by (induction calls arbitrary: n bc) (simp_all add: indexed_Nil indexed_Cons Let_def split_beta)

lemma assign_indices_groups:
  "calls_of (snd (assign_indices calls n bc)) k =
     calls_of bc k @ filter (\<lambda>c. caller_class c = k) (indexed calls n)"
proof (induction calls arbitrary: n bc)
  case Nil
  then show ?case by (simp add: indexed_Nil)
next
  case (Cons c cs)
  let ?c = "c\<lparr>invocation_index := Some n\<rparr>"
  let ?bc = "AList.update (caller_class ?c) (calls_of bc (caller_class ?c) @ [?c]) bc"
  have "snd (assign_indices (c # cs) n bc) = snd (assign_indices cs (Suc n) ?bc)"
    by (simp add: Let_def calls_of_def split_beta)
  then show ?case
    by (simp add: Cons.IH indexed_Cons calls_of_update)
qed

lemma assign_indices_keys:
  "set (map fst (snd (assign_indices calls n bc))) = set (map fst bc) \<union> caller_class ` set calls \<and>
   (distinct (map fst bc) \<longrightarrow> distinct (map fst (snd (assign_indices calls n bc))))"
proof (induction calls arbitrary: n bc)
  case Nil
  then show ?case by simp
next
  case (Cons c cs)
  let ?c = "c\<lparr>invocation_index := Some n\<rparr>"
  let ?bc = "AList.update (caller_class ?c) (calls_of bc (caller_class ?c) @ [?c]) bc"
  have s: "snd (assign_indices (c # cs) n bc) = snd (assign_indices cs (Suc n) ?bc)"
    by (simp add: Let_def calls_of_def split_beta)
  have k: "set (map fst ?bc) = insert (caller_class c) (set (map fst bc))"
    using dom_update[of "caller_class ?c" _ bc] by simp
  have d: "distinct (map fst bc) \<longrightarrow> distinct (map fst ?bc)"
    by (simp add: distinct_update)
  from Cons.IH[of "Suc n" ?bc] k d show ?case unfolding s by auto
qed

lemma sort_key_sorted_id: "sorted (map f xs) \<Longrightarrow> sort_key f xs = xs"
  by (simp add: sort_key_id_if_sorted)

lemma filter_indexed_sorted:
  "sorted_wrt (<) (map index_of (filter P (indexed cs n)))"
proof -
  have "sorted_wrt (<) (map index_of (indexed cs n))"
    unfolding indexed_index_of by simp
  then have "sorted_wrt (\<lambda>a b. index_of a < index_of b) (indexed cs n)"
    by (simp add: sorted_wrt_map)
  then have "sorted_wrt (\<lambda>a b. index_of a < index_of b) (filter P (indexed cs n))"
    by (rule sorted_wrt_filter)
  then show ?thesis by (simp add: sorted_wrt_map)
qed

lemma print_call_graph_state:
  "fst (print_call_graph g) = g\<lparr>call_graph := indexed (call_graph g) 0\<rparr>"
  using assign_indices_calls[of "call_graph g" 0 "[]"]
  by (simp add: print_call_graph_def split_beta)

lemma print_call_graph_sections:
  assumes "assign_indices (call_graph g) 0 [] = (calls, by_caller)"
  shows "sort (map fst by_caller) = sorted_list_of_set (caller_class ` set (call_graph g))"
    and "sort_key index_of (calls_of by_caller k) = filter (\<lambda>c. caller_class c = k) (indexed (call_graph g) 0)"
proof -
  from assign_indices_keys[of "call_graph g" 0 "[]"] assms
  have s: "set (map fst by_caller) = caller_class ` set (call_graph g)"
    and d: "distinct (map fst by_caller)" by simp_all
  from d have "sort (map fst by_caller) = sorted_list_of_set (set (map fst by_caller))"
    by (metis distinct_remdups_id sorted_list_of_set_sort_remdups)
  with s show "sort (map fst by_caller) = sorted_list_of_set (caller_class ` set (call_graph g))"
    by simp
  from assign_indices_groups[of "call_graph g" 0 "[]" k] assms
  have c: "calls_of by_caller k = filter (\<lambda>c. caller_class c = k) (indexed (call_graph g) 0)"
    by (simp add: calls_of_def)
  have "sorted (map index_of (filter (\<lambda>c. caller_class c = k) (indexed (call_graph g) 0)))"
    using filter_indexed_sorted[of "\<lambda>c. caller_class c = k" "call_graph g" 0]
    by (simp add: strict_sorted_iff)
  then show "sort_key index_of (calls_of by_caller k) = filter (\<lambda>c. caller_class c = k) (indexed (call_graph g) 0)"
    unfolding c by (rule sort_key_sorted_id)
qed

lemma print_call_graph_output:
  "snd (print_call_graph g) =
     [NL # ''Call Graph Analysis:'', ''==================='', NL # ''Class Hierarchy:'']
     @ map (\<lambda>(cls, super_cls). cls @ '' -> '' @ super_cls) (sort (class_hierarchy g))
     @ [NL # ''Method Calls (Doop Facts Format):'']
     @ concat (map (\<lambda>caller_cls.
                  (NL # ''# '' @ caller_cls @ '':'')
                    # map fact_line (filter (\<lambda>c. caller_class c = caller_cls)
                                       (call_graph (fst (print_call_graph g)))))
                (sorted_list_of_set (caller_class ` set (call_graph g))))
     @ [NL # ''Statistics:'',
        ''Total Classes: '' @ str_nat (length (class_methods g)),
        ''Total Methods: ''
          @ str_nat (sum_list (map (\<lambda>(cls, methods). card methods) (class_methods g))),
        ''Total Method Calls: '' @ str_nat (length (call_graph g))]"
proof -
  obtain calls by_caller where a: "assign_indices (call_graph g) 0 [] = (calls, by_caller)"
    by (cases "assign_indices (call_graph g) 0 []")
  note s = print_call_graph_sections[OF a]
  have st: "call_graph (fst (print_call_graph g)) = indexed (call_graph g) 0"
    by (simp add: print_call_graph_state)
  show ?thesis
    unfolding st by (simp add: print_call_graph_def a s)
qed

lemma sorted_map_fst_lex:
  fixes xs :: "('a::linorder \<times> 'b::linorder) list"
  shows "sorted xs \<Longrightarrow> sorted (map fst xs)"
proof -
  assume "sorted xs"
  then have "sorted_wrt (\<lambda>x y. fst x \<le> fst y) xs"
    by (rule sorted_wrt_mono_rel[rotated]) (auto simp: less_eq_prod_def)
  then show ?thesis by (simp add: sorted_map)
qed

text \<open>
  C8. The report is, in this order: the three heading lines; one line
  \<^verbatim>\<open>Class -> Superclass\<close> for every entry of the hierarchy, sorted by class name; the
  heading of the facts; for every caller class in ascending order a section heading and one
  fact line per call record of that class, in ascending order of invocation index, of the
  shape \<^verbatim>\<open>StaticMethodInvocation(id, index, callee signature, caller signature)\<close> where
  the id is \<^verbatim>\<open>invoke_<callerClass>_<callerMethod>_<index>\<close>; the heading of the
  statistics and three counters: the classes of the declared-method table, the declared
  methods, the call records.
\<close>

theorem report_shape:
  "snd (print_call_graph g) =
     [NL # ''Call Graph Analysis:'', ''==================='', NL # ''Class Hierarchy:'']
     @ map (\<lambda>(cls, super_cls). cls @ '' -> '' @ super_cls) (sort (class_hierarchy g))
     @ [NL # ''Method Calls (Doop Facts Format):'']
     @ concat (map (\<lambda>caller_cls.
                  (NL # ''# '' @ caller_cls @ '':'')
                    # map fact_line (filter (\<lambda>c. caller_class c = caller_cls)
                                       (call_graph (fst (print_call_graph g)))))
                (sorted_list_of_set (caller_class ` set (call_graph g))))
     @ [NL # ''Statistics:'',
        ''Total Classes: '' @ str_nat (length (class_methods g)),
        ''Total Methods: ''
          @ str_nat (sum_list (map (\<lambda>(cls, methods). card methods) (class_methods g))),
        ''Total Method Calls: '' @ str_nat (length (call_graph g))] \<and>
   sorted (map fst (sort (class_hierarchy g))) \<and>
   length (sort (class_hierarchy g)) = length (class_hierarchy g) \<and>
   set (sort (class_hierarchy g)) = set (class_hierarchy g) \<and>
   sorted_wrt (<) (sorted_list_of_set (caller_class ` set (call_graph g))) \<and>
   set (sorted_list_of_set (caller_class ` set (call_graph g))) = caller_class ` set (call_graph g) \<and>
   sorted_wrt (<) (map index_of (filter (\<lambda>c. caller_class c = caller_cls)
                                   (call_graph (fst (print_call_graph g))))) \<and>
   fact_line call =
     ''  StaticMethodInvocation(''
       @ (''invoke_'' @ caller_class call @ ''_'' @ caller_method call @ ''_''
            @ str_nat (index_of call))
       @ '', '' @ str_nat (index_of call)
       @ '', '' @ get_callee_signature call
       @ '', '' @ get_caller_signature call @ '')''"
proof (intro conjI)
  show "snd (print_call_graph g) =
     [NL # ''Call Graph Analysis:'', ''==================='', NL # ''Class Hierarchy:'']
     @ map (\<lambda>(cls, super_cls). cls @ '' -> '' @ super_cls) (sort (class_hierarchy g))
     @ [NL # ''Method Calls (Doop Facts Format):'']
     @ concat (map (\<lambda>caller_cls.
                  (NL # ''# '' @ caller_cls @ '':'')
                    # map fact_line (filter (\<lambda>c. caller_class c = caller_cls)
                                       (call_graph (fst (print_call_graph g)))))
                (sorted_list_of_set (caller_class ` set (call_graph g))))
     @ [NL # ''Statistics:'',
        ''Total Classes: '' @ str_nat (length (class_methods g)),
        ''Total Methods: ''
          @ str_nat (sum_list (map (\<lambda>(cls, methods). card methods) (class_methods g))),
        ''Total Method Calls: '' @ str_nat (length (call_graph g))]"
    by (rule print_call_graph_output)
  show "sorted (map fst (sort (class_hierarchy g)))"
    by (rule sorted_map_fst_lex) simp
  show "length (sort (class_hierarchy g)) = length (class_hierarchy g)" by simp
  show "set (sort (class_hierarchy g)) = set (class_hierarchy g)" by simp
  show "sorted_wrt (<) (sorted_list_of_set (caller_class ` set (call_graph g)))" by simp
  show "set (sorted_list_of_set (caller_class ` set (call_graph g))) = caller_class ` set (call_graph g)"
    by simp
  show "sorted_wrt (<) (map index_of (filter (\<lambda>c. caller_class c = caller_cls)
                                   (call_graph (fst (print_call_graph g)))))"
    unfolding print_call_graph_state by (simp add: filter_indexed_sorted)
  show "fact_line call =
     ''  StaticMethodInvocation(''
       @ (''invoke_'' @ caller_class call @ ''_'' @ caller_method call @ ''_''
            @ str_nat (index_of call))
       @ '', '' @ str_nat (index_of call)
       @ '', '' @ get_callee_signature call
       @ '', '' @ get_caller_signature call @ '')''"
    by (simp add: fact_line_def Let_def)
qed

theorem report_shape_witness:
  "snd (print_call_graph
      \<lparr>call_graph = [MethodCall_init ''Dog'' ''- [Dog bark]'' ''Dog'' ''- [Dog growl]'',
                     MethodCall_init ''Cat'' ''- [Cat purr]'' ''Cat'' ''- [Cat sleep]'',
                     MethodCall_init ''Dog'' ''- [Dog bark]'' ''Animal'' ''+ [Animal sharedInstance]''],
       class_methods = [(''Dog'', {''bark'', ''fetch''}), (''Cat'', {''purr''})],
       class_hierarchy = [(''Dog'', ''Animal''), (''Cat'', ''Animal'')],
       current_class = Some ''Dog''\<rparr>)
   = [''\<newline>Call Graph Analysis:'', ''==================='', ''\<newline>Class Hierarchy:'',
      ''Cat -> Animal'', ''Dog -> Animal'',
      ''\<newline>Method Calls (Doop Facts Format):'',
      ''\<newline># Cat:'',
      ''  StaticMethodInvocation(invoke_Cat_- [Cat purr]_1, 1, -[Cat - [Cat sleep]], -[Cat - [Cat purr]])'',
      ''\<newline># Dog:'',
      ''  StaticMethodInvocation(invoke_Dog_- [Dog bark]_0, 0, -[Dog - [Dog growl]], -[Dog - [Dog bark]])'',
      ''  StaticMethodInvocation(invoke_Dog_- [Dog bark]_2, 2, -[Animal + [Animal sharedInstance]], -[Dog - [Dog bark]])'',
      ''\<newline>Statistics:'', ''Total Classes: 2'', ''Total Methods: 3'', ''Total Method Calls: 3'']"
proof -
  let ?g = "\<lparr>call_graph = [MethodCall_init ''Dog'' ''- [Dog bark]'' ''Dog'' ''- [Dog growl]'',
                     MethodCall_init ''Cat'' ''- [Cat purr]'' ''Cat'' ''- [Cat sleep]'',
                     MethodCall_init ''Dog'' ''- [Dog bark]'' ''Animal'' ''+ [Animal sharedInstance]''],
       class_methods = [(''Dog'', {''bark'', ''fetch''}), (''Cat'', {''purr''})],
       class_hierarchy = [(''Dog'', ''Animal''), (''Cat'', ''Animal'')],
       current_class = Some ''Dog''\<rparr>"
  have h: "sort (class_hierarchy ?g) = [(''Cat'', ''Animal''), (''Dog'', ''Animal'')]" by code_simp
  have c: "sorted_list_of_set (caller_class ` set (call_graph ?g)) = [''Cat'', ''Dog'']" by code_simp
  have s: "call_graph (fst (print_call_graph ?g)) =
     [(MethodCall_init ''Dog'' ''- [Dog bark]'' ''Dog'' ''- [Dog growl]'')\<lparr>invocation_index := Some 0\<rparr>,
      (MethodCall_init ''Cat'' ''- [Cat purr]'' ''Cat'' ''- [Cat sleep]'')\<lparr>invocation_index := Some 1\<rparr>,
      (MethodCall_init ''Dog'' ''- [Dog bark]'' ''Animal'' ''+ [Animal sharedInstance]'')\<lparr>invocation_index := Some 2\<rparr>]"
    by code_simp
  have f: "map fact_line (call_graph (fst (print_call_graph ?g))) =
    [''  StaticMethodInvocation(invoke_Dog_- [Dog bark]_0, 0, -[Dog - [Dog growl]], -[Dog - [Dog bark]])'',
     ''  StaticMethodInvocation(invoke_Cat_- [Cat purr]_1, 1, -[Cat - [Cat sleep]], -[Cat - [Cat purr]])'',
     ''  StaticMethodInvocation(invoke_Dog_- [Dog bark]_2, 2, -[Animal + [Animal sharedInstance]], -[Dog - [Dog bark]])'']"
    by code_simp
  have n: "str_nat (length (class_methods ?g)) = ''2''"
    "str_nat (sum_list (map (\<lambda>(cls, methods). card methods) (class_methods ?g))) = ''3''"
    "str_nat (length (call_graph ?g)) = ''3''" by code_simp+
  have k: "map caller_class (call_graph (fst (print_call_graph ?g))) = [''Dog'', ''Cat'', ''Dog'']"
    by code_simp
  from report_shape[of ?g] have "snd (print_call_graph ?g) =
     [NL # ''Call Graph Analysis:'', ''==================='', NL # ''Class Hierarchy:'']
     @ map (\<lambda>(cls, super_cls). cls @ '' -> '' @ super_cls) (sort (class_hierarchy ?g))
     @ [NL # ''Method Calls (Doop Facts Format):'']
     @ concat (map (\<lambda>caller_cls.
                  (NL # ''# '' @ caller_cls @ '':'')
                    # map fact_line (filter (\<lambda>c. caller_class c = caller_cls)
                                       (call_graph (fst (print_call_graph ?g)))))
                (sorted_list_of_set (caller_class ` set (call_graph ?g))))
     @ [NL # ''Statistics:'',
        ''Total Classes: '' @ str_nat (length (class_methods ?g)),
        ''Total Methods: ''
          @ str_nat (sum_list (map (\<lambda>(cls, methods). card methods) (class_methods ?g))),
        ''Total Method Calls: '' @ str_nat (length (call_graph ?g))]" by blast
  also have "\<dots> = [''\<newline>Call Graph Analysis:'', ''==================='', ''\<newline>Class Hierarchy:'',
      ''Cat -> Animal'', ''Dog -> Animal'',
      ''\<newline>Method Calls (Doop Facts Format):'',
      ''\<newline># Cat:'',
      ''  StaticMethodInvocation(invoke_Cat_- [Cat purr]_1, 1, -[Cat - [Cat sleep]], -[Cat - [Cat purr]])'',
      ''\<newline># Dog:'',
      ''  StaticMethodInvocation(invoke_Dog_- [Dog bark]_0, 0, -[Dog - [Dog growl]], -[Dog - [Dog bark]])'',
      ''  StaticMethodInvocation(invoke_Dog_- [Dog bark]_2, 2, -[Animal + [Animal sharedInstance]], -[Dog - [Dog bark]])'',
      ''\<newline>Statistics:'', ''Total Classes: 2'', ''Total Methods: 3'', ''Total Method Calls: 3'']"
    unfolding h c n using s f k by (simp add: NL_def MethodCall_init_def)
  finally show ?thesis .
qed

section \<open>Invocation indices (C6)\<close>

lemma parse_interface_call_graph:
  "call_graph (parse_interface content class_name g) = call_graph g"
proof -
  define g1 where "g1 = (case re_search interface_pattern content of
                  Some m \<Rightarrow> g\<lparr>class_hierarchy := AList.update class_name (m_group m 2) (class_hierarchy g)\<rparr>
                | None \<Rightarrow> g)"
  have "parse_interface content class_name g =
      fold (\<lambda>m g'. g'\<lparr>class_methods := add_method class_name (m_group m 3) (class_methods g')\<rparr>)
        (re_finditer interface_method_pattern content) g1"
    by (simp add: parse_interface_def g1_def Let_def split: option.splits)
  moreover have "call_graph g1 = call_graph g" by (simp add: g1_def split: option.splits)
  ultimately show ?thesis
    using fold_add_methods[of class_name "re_finditer interface_method_pattern content" g1] by simp
qed

lemma analyze_file_prefix: "prefix (call_graph g) (call_graph (fst (analyze_file f g)))"
proof (cases "read_text f")
  case (Inl e)
  then show ?thesis by (simp add: analyze_file_def)
next
  case (Inr content)
  show ?thesis
  proof (cases "file_suffix f = ''.h''")
    case True
    with Inr have "fst (analyze_file f g) = parse_interface content (file_stem f) g"
      by (simp add: analyze_file_def Let_def)
    moreover have "call_graph (parse_interface content (file_stem f) g) = call_graph g"
      by (rule parse_interface_call_graph)
    ultimately show ?thesis by simp
  next
    case False
    show ?thesis
    proof (cases "file_suffix f = ''.m''")
      case True
      obtain g' err where pi: "parse_implementation content (file_stem f) g = (g', err)"
        by (cases "parse_implementation content (file_stem f) g")
      with Inr False True have "fst (analyze_file f g) = g'"
        by (simp add: analyze_file_def Let_def split: option.splits)
      moreover from parse_implementation_edges[OF pi]
      have "prefix (call_graph g) (call_graph g')" by auto
      ultimately show ?thesis by simp
    next
      case False
      with Inr \<open>file_suffix f \<noteq> ''.h''\<close> show ?thesis by (simp add: analyze_file_def Let_def)
    qed
  qed
qed

lemma analyze_loop_prefix:
  "prefix (call_graph g) (call_graph (fst (analyze_loop sfx label fs g)))"
proof (induction fs arbitrary: g)
  case Nil
  then show ?case by simp
next
  case (Cons f fs)
  show ?case
  proof (cases "file_suffix f = sfx")
    case True
    have "fst (analyze_loop sfx label (f # fs) g) = fst (analyze_loop sfx label fs (fst (analyze_file f g)))"
      using True by (simp add: split_beta)
    with analyze_file_prefix[of g f] Cons.IH[of "fst (analyze_file f g)"] show ?thesis
      using prefix_order.trans by fastforce
  next
    case False
    with Cons.IH[of g] show ?thesis by simp
  qed
qed

lemma analyze_loop_append:
  "analyze_loop sfx label (fs1 @ fs2) g =
     (case analyze_loop sfx label fs1 g of
        (g1, out1) \<Rightarrow>
          (case analyze_loop sfx label fs2 g1 of (g2, out2) \<Rightarrow> (g2, out1 @ out2)))"
  by (induction fs1 arbitrary: g) (simp_all add: split_beta)

lemma scan_lines_prefix:
  "prefix (call_graph (snd (snd st))) (call_graph (snd (snd (fst (scan_lines cls ls st)))))"
proof -
  obtain cm cmt g where st: "st = (cm, cmt, g)" by (cases st) auto
  obtain cm' cmt' g' err where r: "scan_lines cls ls (cm, cmt, g) = ((cm', cmt', g'), err)"
    by (metis prod.exhaust)
  from scan_lines_edges[OF r] show ?thesis unfolding st r by auto
qed

lemma site_edges_length: "length (site_edges cls h cmt cm m) \<le> 1"
  using site_edges_cases[of cls h cmt cm m] by auto

lemma main_state:
  "\<exists>g. fst (main source_files) = g\<lparr>call_graph := indexed (call_graph g) 0\<rparr>"
proof -
  obtain g1 out1 where a: "analyze_loop ''.h'' ''Analyzing header: '' source_files CallGraphGenerator_init = (g1, out1)"
    by (metis prod.exhaust)
  obtain g2 out2 where b: "analyze_loop ''.m'' ''Analyzing implementation: '' source_files g1 = (g2, out2)"
    by (metis prod.exhaust)
  have "fst (main source_files) = fst (print_call_graph g2)"
    by (simp add: main_def a b split_beta)
  then show ?thesis using print_call_graph_state[of g2] by auto
qed


text \<open>
  C6. \<^verbatim>\<open>print_call_graph\<close> attaches to the call records the indices 0, 1, 2, ... in the
  order of the list \<^verbatim>\<open>call_graph\<close>, one to each record, and changes nothing else of them;
  so after \<^verbatim>\<open>main\<close> the indices are dense, strictly increasing and without duplicates.
  The order of that list is the order of discovery: every step only appends to it; the
  files are processed in the order of the list of files, the lines of a unit in their
  order, and the message sends of a line in the order of \<^verbatim>\<open>re.finditer\<close>, which is from
  left to right without overlap; each message send appends at most one record.
\<close>

theorem invocation_indices:
  "map invocation_index (call_graph (fst (print_call_graph g)))
     = map Some [0..<length (call_graph g)] \<and>
   map (\<lambda>c. c\<lparr>invocation_index := None\<rparr>) (call_graph (fst (print_call_graph g)))
     = map (\<lambda>c. c\<lparr>invocation_index := None\<rparr>) (call_graph g) \<and>
   map invocation_index (call_graph (fst (main source_files)))
     = map Some [0..<length (call_graph (fst (main source_files)))] \<and>
   analyze_loop sfx label (fs1 @ fs2) g =
     (case analyze_loop sfx label fs1 g of
        (g1, out1) \<Rightarrow>
          (case analyze_loop sfx label fs2 g1 of (g2, out2) \<Rightarrow> (g2, out1 @ out2))) \<and>
   prefix (call_graph g) (call_graph (fst (analyze_loop sfx label fs g))) \<and>
   prefix (call_graph g) (call_graph (fst (analyze_file f g))) \<and>
   scan_lines cls (ls1 @ ls2) st =
     (case scan_lines cls ls1 st of
        (st', Some e) \<Rightarrow> (st', Some e)
      | (st', None) \<Rightarrow> scan_lines cls ls2 st') \<and>
   prefix (call_graph (snd (snd st))) (call_graph (snd (snd (fst (scan_lines cls ls st))))) \<and>
   (\<exists>ms'. prefix ms' ms \<and>
      (snd (scan_calls cls cmt cm ms g) = None \<longrightarrow> ms' = ms) \<and>
      fst (scan_calls cls cmt cm ms g) =
        g\<lparr>call_graph := call_graph g @
             concat (map (site_edges cls (class_hierarchy g) cmt cm) ms')\<rparr>) \<and>
   length (site_edges cls h cmt cm m) \<le> 1 \<and>
   sorted_wrt (\<lambda>a b. m_end a \<le> m_start b) (re_finditer r line) \<and>
   list_all (\<lambda>m. m_start m < m_end m) (re_finditer method_calls_pattern line)"
proof (intro conjI)
  show "map invocation_index (call_graph (fst (print_call_graph g)))
     = map Some [0..<length (call_graph g)]"
    using indexed_index[of "call_graph g" 0] by (simp add: print_call_graph_state)
  show "map (\<lambda>c. c\<lparr>invocation_index := None\<rparr>) (call_graph (fst (print_call_graph g)))
     = map (\<lambda>c. c\<lparr>invocation_index := None\<rparr>) (call_graph g)"
    by (simp add: print_call_graph_state indexed_same_calls)
  show "map invocation_index (call_graph (fst (main source_files)))
     = map Some [0..<length (call_graph (fst (main source_files)))]"
  proof -
    from main_state obtain g0 where
      "fst (main source_files) = g0\<lparr>call_graph := indexed (call_graph g0) 0\<rparr>" by blast
    then show ?thesis using indexed_index[of "call_graph g0" 0] by (simp add: indexed_length)
  qed
  show "analyze_loop sfx label (fs1 @ fs2) g =
     (case analyze_loop sfx label fs1 g of
        (g1, out1) \<Rightarrow>
          (case analyze_loop sfx label fs2 g1 of (g2, out2) \<Rightarrow> (g2, out1 @ out2)))"
    by (rule analyze_loop_append)
  show "prefix (call_graph g) (call_graph (fst (analyze_loop sfx label fs g)))"
    by (rule analyze_loop_prefix)
  show "prefix (call_graph g) (call_graph (fst (analyze_file f g)))"
    by (rule analyze_file_prefix)
  show "scan_lines cls (ls1 @ ls2) st =
     (case scan_lines cls ls1 st of
        (st', Some e) \<Rightarrow> (st', Some e)
      | (st', None) \<Rightarrow> scan_lines cls ls2 st')"
    by (rule scan_lines_append)
  show "prefix (call_graph (snd (snd st))) (call_graph (snd (snd (fst (scan_lines cls ls st)))))"
    by (rule scan_lines_prefix)
  show "\<exists>ms'. prefix ms' ms \<and>
      (snd (scan_calls cls cmt cm ms g) = None \<longrightarrow> ms' = ms) \<and>
      fst (scan_calls cls cmt cm ms g) =
        g\<lparr>call_graph := call_graph g @
             concat (map (site_edges cls (class_hierarchy g) cmt cm) ms')\<rparr>"
    using scan_calls_edges[of cls cmt cm ms g "fst (scan_calls cls cmt cm ms g)"
        "snd (scan_calls cls cmt cm ms g)"] by auto
  show "length (site_edges cls h cmt cm m) \<le> 1" by (rule site_edges_length)
  show "sorted_wrt (\<lambda>a b. m_end a \<le> m_start b) (re_finditer r line)"
    using finditer_from_props[of r 0 line] by (simp add: re_finditer_def)
  show "list_all (\<lambda>m. m_start m < m_end m) (re_finditer method_calls_pattern line)"
    unfolding list_all_iff re_finditer_def
    using finditer_from_props[of method_calls_pattern 0 line]
      search_from_nonempty[OF _ patterns_consume(5)] by blast
qed

theorem invocation_indices_witness:
  "map (\<lambda>c. (caller_class c, callee_method c, invocation_index c))
       (call_graph (fst (main [Cat_m, Dog_h, Dog_m])))
     = [(''Cat'', ''- [Cat sleep]'', Some 0), (''Cat'', ''+ [Dog alloc]'', Some 1),
        (''Dog'', ''- [Dog growl]'', Some 2), (''Dog'', ''+ [Animal sharedInstance]'', Some 3)] \<and>
   map invocation_index (call_graph (fst (main [Cat_m, Dog_h, Dog_m])))
     = map Some [0..<length (call_graph (fst (main [Cat_m, Dog_h, Dog_m])))] \<and>
   map m_start (re_finditer method_calls_pattern ''    [self sleep]; [Dog alloc];'') = [4, 18] \<and>
   snd (scan_calls ''Cat'' (Some ''-'') ''purr''
         (re_finditer method_calls_pattern ''    [self sleep]; [Dog alloc];'')
         CallGraphGenerator_init) = None \<and>
   fst (scan_calls ''Cat'' (Some ''-'') ''purr''
         (re_finditer method_calls_pattern ''    [self sleep]; [Dog alloc];'')
         CallGraphGenerator_init)
     = CallGraphGenerator_init\<lparr>call_graph := call_graph CallGraphGenerator_init @
         concat (map (site_edges ''Cat'' (class_hierarchy CallGraphGenerator_init) (Some ''-'') ''purr'')
                   (re_finditer method_calls_pattern ''    [self sleep]; [Dog alloc];''))\<rparr>"
proof -
  let ?ms = "re_finditer method_calls_pattern ''    [self sleep]; [Dog alloc];''"
  have 1: "map (\<lambda>c. (caller_class c, callee_method c, invocation_index c))
       (call_graph (fst (main [Cat_m, Dog_h, Dog_m])))
     = [(''Cat'', ''- [Cat sleep]'', Some 0), (''Cat'', ''+ [Dog alloc]'', Some 1),
        (''Dog'', ''- [Dog growl]'', Some 2), (''Dog'', ''+ [Animal sharedInstance]'', Some 3)]"
    by code_simp
  have 2: "map m_start ?ms = [4, 18]" by code_simp
  have 3: "snd (scan_calls ''Cat'' (Some ''-'') ''purr'' ?ms CallGraphGenerator_init) = None"
    by code_simp
  note t = invocation_indices[where source_files = "[Cat_m, Dog_h, Dog_m]" and cls = "''Cat''"
      and cmt = "Some ''-''" and cm = "''purr''" and ms = ?ms and g = CallGraphGenerator_init]
  from t have 4: "map invocation_index (call_graph (fst (main [Cat_m, Dog_h, Dog_m])))
     = map Some [0..<length (call_graph (fst (main [Cat_m, Dog_h, Dog_m])))]" by blast
  from t 3 have 5: "fst (scan_calls ''Cat'' (Some ''-'') ''purr'' ?ms CallGraphGenerator_init)
     = CallGraphGenerator_init\<lparr>call_graph := call_graph CallGraphGenerator_init @
         concat (map (site_edges ''Cat'' (class_hierarchy CallGraphGenerator_init) (Some ''-'') ''purr'') ?ms)\<rparr>"
    by auto
  from 1 2 3 4 5 show ?thesis by blast
qed

section \<open>The end-to-end scenario (C1)\<close>

text \<open>
  C1 fails as stated: in the definition unit of the specification the header is written
  \<^verbatim>\<open>-(void) bark {\<close>, and the header pattern wants the method name right after the closing
  parenthesis of the return type. The header is not recognised, no method becomes current,
  and the two message sends are not recorded: the run reports no call.
\<close>

theorem end_to_end_scenario_counterexample:
  "read_text Dog_h = Inr ''@interface Dog : Animal\<newline>- (void)bark;\<newline>@end'' \<and>
   read_text Dog_m_spec
     = Inr ''-(void) bark {\<newline>    [self growl];\<newline>    [Animal sharedInstance];\<newline>}'' \<and>
   re_search method_pattern ''-(void) bark {'' = None \<and>
   call_graph (fst (main [Dog_h, Dog_m_spec])) = [] \<and>
   filter (prefix ''Total'') (snd (main [Dog_h, Dog_m_spec]))
     = [''Total Classes: 1'', ''Total Methods: 1'', ''Total Method Calls: 0'']"
  by code_simp

text \<open>
  C1, as amended. With the header written \<^verbatim>\<open>-(void)bark {\<close> the run records exactly two
  calls, both from class \<^verbatim>\<open>Dog\<close> with the caller string \<^verbatim>\<open>- [Dog bark]\<close>: the first to
  class \<^verbatim>\<open>Dog\<close> with the callee string \<^verbatim>\<open>- [Dog growl]\<close> and index 0, the second to class
  \<^verbatim>\<open>Animal\<close> with the callee string \<^verbatim>\<open>+ [Animal sharedInstance]\<close> and index 1; the
  hierarchy is \<^verbatim>\<open>Dog -> Animal\<close> and the summary reports 1 class, 1 declared method and 2
  calls.
\<close>

theorem end_to_end_scenario:
  "read_text Dog_h = Inr ''@interface Dog : Animal\<newline>- (void)bark;\<newline>@end'' \<and>
   read_text Dog_m
     = Inr ''-(void)bark {\<newline>    [self growl];\<newline>    [Animal sharedInstance];\<newline>}'' \<and>
   map (\<lambda>c. (caller_class c, caller_method c, callee_class c, callee_method c, invocation_index c))
       (call_graph (fst (main [Dog_h, Dog_m])))
     = [(''Dog'', ''- [Dog bark]'', ''Dog'', ''- [Dog growl]'', Some 0),
        (''Dog'', ''- [Dog bark]'', ''Animal'', ''+ [Animal sharedInstance]'', Some 1)] \<and>
   class_hierarchy (fst (main [Dog_h, Dog_m])) = [(''Dog'', ''Animal'')] \<and>
   class_methods (fst (main [Dog_h, Dog_m])) = [(''Dog'', {''bark''})] \<and>
   filter (prefix ''Total'') (snd (main [Dog_h, Dog_m]))
     = [''Total Classes: 1'', ''Total Methods: 1'', ''Total Method Calls: 2'']"
  by code_simp

section \<open>Kind markers in the signatures (C2, C3)\<close>

text \<open>
  C2, at a failing input. The method \<^verbatim>\<open>+(id)sharedDog\<close> is declared with the marker
  \<^verbatim>\<open>+\<close>; \<^verbatim>\<open>parse_implementation\<close> keeps the marker and hands the formatted string
  \<^verbatim>\<open>+ [Dog sharedDog]\<close> to \<^verbatim>\<open>MethodCall\<close> as the caller method, whose prefix test then
  runs on a string that starts with the marker: the caller type is \<^verbatim>\<open>-\<close> and the caller
  signature is \<^verbatim>\<open>-[Dog + [Dog sharedDog]]\<close>.
\<close>

theorem caller_kind_marker_at_failing_input:
  "map caller_method (call_graph (fst (parse_implementation
       ''@implementation Dog\<newline>+(id)sharedDog {\<newline>    [self doWork];\<newline>}'' ''Dog''
       CallGraphGenerator_init))) = [''+ [Dog sharedDog]''] \<and>
   map caller_type (call_graph (fst (parse_implementation
       ''@implementation Dog\<newline>+(id)sharedDog {\<newline>    [self doWork];\<newline>}'' ''Dog''
       CallGraphGenerator_init))) = [''-''] \<and>
   map get_caller_signature (call_graph (fst (parse_implementation
       ''@implementation Dog\<newline>+(id)sharedDog {\<newline>    [self doWork];\<newline>}'' ''Dog''
       CallGraphGenerator_init))) = [''-[Dog + [Dog sharedDog]]'']"
  by code_simp

text \<open>
  C3, at a failing input. The send \<^verbatim>\<open>[Animal sharedInstance]\<close> is classified \<^verbatim>\<open>+\<close> and
  the send \<^verbatim>\<open>[self doWork]\<close> is classified \<^verbatim>\<open>-\<close> by lines 110 to 112, and the callee
  strings carry these markers; the callee type of both records is \<^verbatim>\<open>-\<close>, and the callee
  signatures are \<^verbatim>\<open>-[Animal + [Animal sharedInstance]]\<close> and \<^verbatim>\<open>-[Dog - [Dog doWork]]\<close>.
\<close>

theorem callee_kind_marker_at_failing_input:
  "callee_method_type ''sharedInstance'' ''Animal'' = Inr ''+'' \<and>
   callee_method_type ''doWork'' ''Dog'' = Inr ''-'' \<and>
   map callee_method (call_graph (fst (parse_implementation
       ''-(void)bark {\<newline>    [Animal sharedInstance];\<newline>    [self doWork];\<newline>}'' ''Dog''
       CallGraphGenerator_init))) = [''+ [Animal sharedInstance]'', ''- [Dog doWork]''] \<and>
   map callee_type (call_graph (fst (parse_implementation
       ''-(void)bark {\<newline>    [Animal sharedInstance];\<newline>    [self doWork];\<newline>}'' ''Dog''
       CallGraphGenerator_init))) = [''-'', ''-''] \<and>
   map get_callee_signature (call_graph (fst (parse_implementation
       ''-(void)bark {\<newline>    [Animal sharedInstance];\<newline>    [self doWork];\<newline>}'' ''Dog''
       CallGraphGenerator_init)))
     = [''-[Animal + [Animal sharedInstance]]'', ''-[Dog - [Dog doWork]]'']"
  by code_simp

section \<open>Determinism (C10)\<close>

lemma analyze_file_unit:
  "unit_of f = unit_of f' \<Longrightarrow> fst (analyze_file f g) = fst (analyze_file f' g)"
  by (auto simp: unit_of_def analyze_file_def Let_def split: sum.splits option.splits prod.splits)

lemma analyze_loop_units:
  "list_all2 (\<lambda>f f'. unit_of f = unit_of f') fs fs' \<Longrightarrow>
     fst (analyze_loop sfx label fs g) = fst (analyze_loop sfx label fs' g)"
proof (induction fs fs' arbitrary: g rule: list_all2_induct)
  case Nil
  then show ?case by simp
next
  case (Cons f fs f' fs')
  from Cons.hyps(1) have s: "file_suffix f = file_suffix f'" by (simp add: unit_of_def)
  from analyze_file_unit[OF Cons.hyps(1)] have a: "fst (analyze_file f g) = fst (analyze_file f' g)" .
  show ?case
  proof (cases "file_suffix f = sfx")
    case True
    with s a Cons.IH[of "fst (analyze_file f' g)"] show ?thesis by (simp add: split_beta)
  next
    case False
    with s Cons.IH[of g] show ?thesis by simp
  qed
qed

lemma map_eq_list_all2:
  "map h xs = map h ys \<Longrightarrow> list_all2 (\<lambda>a b. h a = h b) xs ys"
  by (induction xs arbitrary: ys) auto

lemma main_report:
  "fst (main source_files) = fst (print_call_graph (analysis source_files)) \<and>
   (\<exists>progress. snd (main source_files) = progress @ report source_files)"
proof -
  obtain g1 out1 where a: "analyze_loop ''.h'' ''Analyzing header: '' source_files CallGraphGenerator_init = (g1, out1)"
    by (metis prod.exhaust)
  obtain g2 out2 where b: "analyze_loop ''.m'' ''Analyzing implementation: '' source_files g1 = (g2, out2)"
    by (metis prod.exhaust)
  have g2: "analysis source_files = g2" by (simp add: analysis_def a b)
  have "snd (main source_files) =
      ((''Found '' @ str_nat (length source_files) @ '' source files to analyze'') # out1 @ out2)
        @ report source_files"
    by (simp add: main_def a b report_def g2 split_beta)
  moreover have "fst (main source_files) = fst (print_call_graph (analysis source_files))"
    by (simp add: main_def a b g2 split_beta)
  ultimately show ?thesis by blast
qed

text \<open>
  C10. A unit is what the analyzer reads of a file: its text (or the failure to read it),
  its kind and the class name taken from its name. Two runs of \<^verbatim>\<open>main\<close> on lists of files
  that hold the same units in the same order end in the same generator, indices included,
  and print the same report, byte for byte; each run starts from a fresh generator, and the
  report is the tail of what the run prints, after the progress lines of the driver.
\<close>

theorem determinism:
  "map unit_of source_files = map unit_of source_files' \<longrightarrow>
     fst (main source_files) = fst (main source_files') \<and>
     report source_files = report source_files' \<and>
     stdout_bytes (report source_files) = stdout_bytes (report source_files') \<and>
     (\<exists>progress. snd (main source_files) = progress @ report source_files) \<and>
     (\<exists>progress'. snd (main source_files') = progress' @ report source_files')"
proof
  assume "map unit_of source_files = map unit_of source_files'"
  then have l: "list_all2 (\<lambda>f f'. unit_of f = unit_of f') source_files source_files'"
    by (rule map_eq_list_all2)
  have "analysis source_files = analysis source_files'"
    unfolding analysis_def
    using analyze_loop_units[OF l, of "''.h''"] analyze_loop_units[OF l, of "''.m''"] by simp
  then show "fst (main source_files) = fst (main source_files') \<and>
     report source_files = report source_files' \<and>
     stdout_bytes (report source_files) = stdout_bytes (report source_files') \<and>
     (\<exists>progress. snd (main source_files) = progress @ report source_files) \<and>
     (\<exists>progress'. snd (main source_files') = progress' @ report source_files')"
    using main_report[of source_files] main_report[of source_files'] by (simp add: report_def)
qed

theorem determinism_witness:
  "map unit_of [Dog_h, Dog_m] = map unit_of [Dog_h\<lparr>file_path := ''iOS/Dog.h''\<rparr>, Dog_m\<lparr>file_path := ''iOS/Dog.m''\<rparr>] \<and>
   snd (main [Dog_h, Dog_m]) \<noteq> snd (main [Dog_h\<lparr>file_path := ''iOS/Dog.h''\<rparr>, Dog_m\<lparr>file_path := ''iOS/Dog.m''\<rparr>]) \<and>
   fst (main [Dog_h, Dog_m]) = fst (main [Dog_h\<lparr>file_path := ''iOS/Dog.h''\<rparr>, Dog_m\<lparr>file_path := ''iOS/Dog.m''\<rparr>]) \<and>
   report [Dog_h, Dog_m] = report [Dog_h\<lparr>file_path := ''iOS/Dog.h''\<rparr>, Dog_m\<lparr>file_path := ''iOS/Dog.m''\<rparr>] \<and>
   stdout_bytes (report [Dog_h, Dog_m])
     = stdout_bytes (report [Dog_h\<lparr>file_path := ''iOS/Dog.h''\<rparr>, Dog_m\<lparr>file_path := ''iOS/Dog.m''\<rparr>]) \<and>
   length (report [Dog_h, Dog_m]) = 12"
proof -
  let ?fs = "[Dog_h, Dog_m]"
  let ?fs' = "[Dog_h\<lparr>file_path := ''iOS/Dog.h''\<rparr>, Dog_m\<lparr>file_path := ''iOS/Dog.m''\<rparr>]"
  have 1: "map unit_of ?fs = map unit_of ?fs'" by (simp add: unit_of_def)
  have 2: "snd (main ?fs) ! 1 = ''Analyzing header: Dog.h''" by code_simp
  have 3: "snd (main ?fs') ! 1 = ''Analyzing header: iOS/Dog.h''" by code_simp
  from 2 3 have 4: "snd (main ?fs) \<noteq> snd (main ?fs')" by auto
  have 5: "length (report ?fs) = 12" by code_simp
  from determinism[of ?fs ?fs'] 1 4 5 show ?thesis by blast
qed

end
